theory Spec2Isabelle
  imports Main
begin

section \<open>Text primitives of the Python runtime\<close>

text \<open>
  The program \<^verbatim>\<open>FPD_Creator.py\<close> works on Python \<^verbatim>\<open>str\<close> values. A \<^typ>\<open>string\<close> is a list
  of 8-bit characters, read here as the code points 0 to 255; the character classes below are
  those of Python 3 on that range. Text with code points above 255 is outside the model.
\<close>

definition isspace :: "char \<Rightarrow> bool" where
  \<comment> \<open>\<^verbatim>\<open>str.isspace\<close> on one character; also the class \<^verbatim>\<open>\s\<close> of \<^verbatim>\<open>re\<close>\<close>
  "isspace c = (c \<in> set [CHR 0x09, CHR 0x0A, CHR 0x0B, CHR 0x0C, CHR 0x0D, CHR 0x1C, CHR 0x1D,
                           CHR 0x1E, CHR 0x1F, CHR 0x20, CHR 0x85, CHR 0xA0])"

definition isdigit :: "char \<Rightarrow> bool" where
  \<comment> \<open>the class \<^verbatim>\<open>\d\<close> of \<^verbatim>\<open>re\<close>\<close>
  "isdigit c = (let n = (of_char c :: nat) in 48 \<le> n \<and> n \<le> 57)"

definition isword :: "char \<Rightarrow> bool" where
  \<comment> \<open>the class \<^verbatim>\<open>\w\<close> of \<^verbatim>\<open>re\<close>: alphanumeric characters and the underscore\<close>
  "isword c = (let n = (of_char c :: nat) in
       (48 \<le> n \<and> n \<le> 57) \<or> (65 \<le> n \<and> n \<le> 90) \<or> n = 95 \<or> (97 \<le> n \<and> n \<le> 122) \<or>
       n = 170 \<or> n = 178 \<or> n = 179 \<or> n = 181 \<or> n = 185 \<or> n = 186 \<or>
       (188 \<le> n \<and> n \<le> 190) \<or> (192 \<le> n \<and> n \<le> 214) \<or> (216 \<le> n \<and> n \<le> 246) \<or>
       (248 \<le> n \<and> n \<le> 255))"

definition islinebreak :: "char \<Rightarrow> bool" where
  \<comment> \<open>the line boundaries of \<^verbatim>\<open>str.splitlines\<close>\<close>
  "islinebreak c = (c \<in> set [CHR 0x0A, CHR 0x0B, CHR 0x0C, CHR 0x0D, CHR 0x1C, CHR 0x1D,
                               CHR 0x1E, CHR 0x85])"

definition strip :: "string \<Rightarrow> string" where
  \<comment> \<open>\<^verbatim>\<open>s.strip()\<close>\<close>
  "strip s = rev (dropWhile isspace (rev (dropWhile isspace s)))"

definition strip_chars :: "string \<Rightarrow> string \<Rightarrow> string" where
  \<comment> \<open>\<^verbatim>\<open>s.strip(chars)\<close>: every leading and trailing character that occurs in \<open>chars\<close> goes\<close>
  "strip_chars chars s =
     rev (dropWhile (\<lambda>c. c \<in> set chars) (rev (dropWhile (\<lambda>c. c \<in> set chars) s)))"

definition startswith :: "string \<Rightarrow> string \<Rightarrow> bool" where
  "startswith s p = (take (length p) s = p)"

fun split :: "char \<Rightarrow> string \<Rightarrow> string list" where
  \<comment> \<open>\<^verbatim>\<open>s.split(sep)\<close> for a separator of one character\<close>
  "split sep [] = [[]]"
| "split sep (c # cs) =
     (let rs = split sep cs in if c = sep then [] # rs else (c # hd rs) # tl rs)"

fun join :: "string \<Rightarrow> string list \<Rightarrow> string" where
  \<comment> \<open>\<^verbatim>\<open>sep.join(xs)\<close>\<close>
  "join sep [] = []"
| "join sep [x] = x"
| "join sep (x # y # ys) = x @ sep @ join sep (y # ys)"

fun splitlines_from :: "string \<Rightarrow> string \<Rightarrow> string list" where
  \<comment> \<open>the scan of \<^verbatim>\<open>str.splitlines\<close>, \<open>cur\<close> the line read so far; \<^verbatim>\<open>\r\n\<close> is one boundary,
      and no empty line follows the last boundary\<close>
  "splitlines_from cur [] = (if cur = [] then [] else [cur])"
| "splitlines_from cur [c] = (if islinebreak c then [cur] else [cur @ [c]])"
| "splitlines_from cur (c # d # cs) =
     (if c = CHR 0x0D \<and> d = CHR 0x0A then cur # splitlines_from [] cs
      else if islinebreak c then cur # splitlines_from [] (d # cs)
      else splitlines_from (cur @ [c]) (d # cs))"

definition splitlines :: "string \<Rightarrow> string list" where
  "splitlines s = splitlines_from [] s"

section \<open>Dictionaries\<close>

text \<open>
  A Python \<^verbatim>\<open>dict\<close> keeps its keys in insertion order; assigning to a key that is present
  replaces the value where the key stands. It is an association list with distinct keys.
\<close>

type_synonym ('k, 'v) dict = "('k \<times> 'v) list"

fun dict_set :: "('k, 'v) dict \<Rightarrow> 'k \<Rightarrow> 'v \<Rightarrow> ('k, 'v) dict" where
  \<comment> \<open>\<^verbatim>\<open>d[k] = v\<close>\<close>
  "dict_set [] k v = [(k, v)]"
| "dict_set ((k', v') # d) k v = (if k' = k then (k, v) # d else (k', v') # dict_set d k v)"

definition dict :: "('k \<times> 'v) list \<Rightarrow> ('k, 'v) dict" where
  \<comment> \<open>\<^verbatim>\<open>dict(pairs)\<close>\<close>
  "dict kvs = foldl (\<lambda>d (k, v). dict_set d k v) [] kvs"

definition dict_get :: "('k, 'v) dict \<Rightarrow> 'k \<Rightarrow> 'v \<Rightarrow> 'v" where
  \<comment> \<open>\<^verbatim>\<open>d.get(k, default)\<close>\<close>
  "dict_get d k dflt = (case map_of d k of None \<Rightarrow> dflt | Some v \<Rightarrow> v)"

definition keys :: "('k, 'v) dict \<Rightarrow> 'k list" where
  "keys d = map fst d"

section \<open>The two parsers\<close>

subsection \<open>\<^verbatim>\<open>parse_numbered_list\<close>\<close>

definition match_numbered :: "string \<Rightarrow> string option" where
  \<comment> \<open>\<^verbatim>\<open>re.match(r"^\s*\d+\.?\s+(.+)$", line)\<close>, giving \<^verbatim>\<open>group(1)\<close>, for a line of
      \<^verbatim>\<open>splitlines\<close> (it holds no line break, so \<^verbatim>\<open>.\<close> takes any character). The classes
      \<^verbatim>\<open>\s\<close> and \<^verbatim>\<open>\d\<close> are disjoint and the dot is in neither, so the greedy choices are
      forced up to \<^verbatim>\<open>\s+\<close>; that one gives back its last character when nothing follows it.\<close>
  "match_numbered line =
     (let s1 = dropWhile isspace line;
          ds = takeWhile isdigit s1;
          s2 = dropWhile isdigit s1;
          s3 = (case s2 of [] \<Rightarrow> s2 | c # cs \<Rightarrow> if c = CHR ''.'' then cs else s2);
          ws = takeWhile isspace s3;
          s4 = dropWhile isspace s3
      in if ds = [] \<or> ws = [] then None
         else if s4 \<noteq> [] then Some s4
         else if 2 \<le> length ws then Some [last ws]
         else None)"

fun numbered_items :: "string list \<Rightarrow> string list \<Rightarrow> string list" where
  \<comment> \<open>the loop over the lines, \<open>items\<close> the list built so far\<close>
  "numbered_items [] items = items"
| "numbered_items (line # rest) items =
     (case match_numbered line of
        Some g \<Rightarrow> numbered_items rest (items @ [strip g])
      | None \<Rightarrow> numbered_items rest items)"

definition parse_numbered_list :: "string \<Rightarrow> string list" where
  "parse_numbered_list text = numbered_items (splitlines text) []"

subsection \<open>\<^verbatim>\<open>parse_markdown_table\<close>\<close>

type_synonym row = "(string, string) dict"

definition table_lines :: "string \<Rightarrow> string list" where
  \<comment> \<open>\<^verbatim>\<open>[l.strip() for l in md.splitlines() if l.strip().startswith("|")]\<close>\<close>
  "table_lines md = map strip (filter (\<lambda>l. startswith (strip l) ''|'') (splitlines md))"

definition row_cells :: "string \<Rightarrow> string list" where
  \<comment> \<open>\<^verbatim>\<open>[c.strip() for c in row.strip("|").split("|")]\<close>\<close>
  "row_cells row = map strip (split CHR ''|'' (strip_chars ''|'' row))"

fun table_rows :: "string list \<Rightarrow> string list \<Rightarrow> row list \<Rightarrow> row list" where
  \<comment> \<open>the loop over \<^verbatim>\<open>lines[2:]\<close>, \<open>rows\<close> the list built so far\<close>
  "table_rows headers [] rows = rows"
| "table_rows headers (row # rest) rows =
     (let cells = row_cells row in
      if length cells \<noteq> length headers then table_rows headers rest rows
      else table_rows headers rest (rows @ [dict (zip headers cells)]))"

definition parse_markdown_table :: "string \<Rightarrow> row list" where
  "parse_markdown_table md =
     (let lines = table_lines md in
      if length lines < 2 then []
      else let headers = row_cells (lines ! 0) in table_rows headers (drop 2 lines) [])"

subsection \<open>The artifact name\<close>

definition unsafe_char :: "char \<Rightarrow> bool" where
  \<comment> \<open>the class \<^verbatim>\<open>[^\w\-]\<close>\<close>
  "unsafe_char c = (\<not> isword c \<and> c \<noteq> CHR ''-'')"

function safe :: "string \<Rightarrow> string" where
  \<comment> \<open>\<^verbatim>\<open>re.sub(r"[^\w\-]+", "_", p)\<close>: each maximal run of the class becomes one underscore\<close>
  "safe [] = []"
| "safe (c # cs) =
     (if unsafe_char c then CHR ''_'' # safe (dropWhile unsafe_char cs) else c # safe cs)"
  by pat_completeness auto
termination
  by (relation "measure length") (auto simp: less_Suc_eq_le length_dropWhile_le)

definition path_join :: "string \<Rightarrow> string \<Rightarrow> string" where
  \<comment> \<open>\<^verbatim>\<open>os.path.join(a, b)\<close> of \<^verbatim>\<open>posixpath\<close>\<close>
  "path_join a b =
     (if startswith b ''/'' then b
      else if a = [] \<or> last a = CHR ''/'' then a @ b
      else a @ ''/'' @ b)"

section \<open>The world outside the program\<close>

text \<open>
  The document reader (\<^verbatim>\<open>extract_text_from_pdf\<close>, built on \<^verbatim>\<open>pdfplumber\<close>), the model
  client behind \<^verbatim>\<open>call_gpt\<close> and the file system are outside the program. The environment
  gives what they answer: the text of a document or the failure to read it, the reply to the
  \<open>n\<close>-th model call of a run or its failure, and whether a path can be created and opened for
  writing. What the program does to them is recorded in the world: the conversations sent, the
  files as lists of CSV records (the quoting of \<^verbatim>\<open>csv\<close> is not modelled), and what is printed,
  one event for every call of \<^verbatim>\<open>print\<close> with the values that its text holds. An exception
  is a value of \<open>error\<close>; the source catches none, so the first one ends the run.
\<close>

datatype error =
    ExtractionError  \<comment> \<open>raised while the document is read\<close>
  | RemoteCallError  \<comment> \<open>raised by the model client\<close>
  | OSError          \<comment> \<open>raised by \<^verbatim>\<open>os.makedirs\<close> or \<^verbatim>\<open>open\<close>\<close>
  | ValueError       \<comment> \<open>raised by \<^verbatim>\<open>csv.DictWriter.writerow\<close>\<close>

record message =
  role :: string
  content :: string

datatype event =
    Reading_PDF string                    \<comment> \<open>\<^verbatim>\<open>Reading PDF from {pdf_path} ...\<close>\<close>
  | No_Text_Extracted                     \<comment> \<open>\<^verbatim>\<open>No text extracted from PDF.\<close>\<close>
  | Identifying_Participants              \<comment> \<open>\<^verbatim>\<open>Identifying main participants with GPT ...\<close>\<close>
  | Failed_To_Parse_Participants          \<comment> \<open>\<^verbatim>\<open>Failed to parse any participants.\<close>\<close>
  | Raw_Response string                   \<comment> \<open>\<^verbatim>\<open>Raw GPT response was:\<close> and the reply\<close>
  | Found_Participants "string list"      \<comment> \<open>\<^verbatim>\<open>Found participants:\<close> and the list\<close>
  | Generating_BPMN string                \<comment> \<open>\<^verbatim>\<open>Generating BPMN data for '{p}' ...\<close>\<close>
  | Could_Not_Parse_Table string string   \<comment> \<open>\<^verbatim>\<open>Could not parse table for {p}. Raw response:\<close> and the reply\<close>
  | Rows_Written nat string               \<comment> \<open>\<^verbatim>\<open>{len(rows)} rows\<close>, an arrow and \<^verbatim>\<open>{out}\<close>\<close>
  | Generating_Message_Flows              \<comment> \<open>\<^verbatim>\<open>Generating message flows ...\<close>\<close>
  | Flows_Written nat string              \<comment> \<open>\<^verbatim>\<open>{len(mf_rows)} flows\<close>, an arrow and \<^verbatim>\<open>{out_msg}\<close>\<close>
  | Could_Not_Parse_Message_Flows string  \<comment> \<open>\<^verbatim>\<open>Could not parse message flows. Raw response:\<close> and the reply\<close>
  | All_Done                              \<comment> \<open>\<^verbatim>\<open>All done.\<close>\<close>

record env =
  pdf_text :: "string \<Rightarrow> error + string"
  client :: "nat \<Rightarrow> message list \<Rightarrow> error + string"
  writable :: "string \<Rightarrow> bool"

record world =
  calls :: "message list list"
  files :: "string \<rightharpoonup> string list list"
  printed :: "event list"

definition say :: "event \<Rightarrow> world \<Rightarrow> world" where
  \<comment> \<open>\<^verbatim>\<open>print\<close>\<close>
  "say e w = w\<lparr>printed := printed w @ [e]\<rparr>"

definition call_gpt :: "env \<Rightarrow> message list \<Rightarrow> world \<Rightarrow> (error + string) \<times> world" where
  \<comment> \<open>one request to the client; the content of the reply is stripped\<close>
  "call_gpt e messages w =
     (let w' = w\<lparr>calls := calls w @ [messages]\<rparr> in
      case client e (length (calls w)) messages of
        Inl err \<Rightarrow> (Inl err, w')
      | Inr reply \<Rightarrow> (Inr (strip reply), w'))"

fun writerows :: "string list \<Rightarrow> row list \<Rightarrow> string list list \<Rightarrow> error option \<times> string list list" where
  \<comment> \<open>the loop of \<^verbatim>\<open>writer.writerow(r)\<close>, \<open>acc\<close> the records in the file so far. A
      \<^verbatim>\<open>DictWriter\<close> raises \<^verbatim>\<open>ValueError\<close> on a key that is no field name, and fills a missing
      field with the empty string.\<close>
  "writerows headers [] acc = (None, acc)"
| "writerows headers (r # rs) acc =
     (if \<not> set (keys r) \<subseteq> set headers then (Some ValueError, acc)
      else writerows headers rs (acc @ [map (\<lambda>k. dict_get r k []) headers]))"

definition write_csv :: "env \<Rightarrow> row list \<Rightarrow> string list \<Rightarrow> string \<Rightarrow> world \<Rightarrow> (error + unit) \<times> world" where
  "write_csv e rows headers out_path w =
     (if \<not> writable e out_path then (Inl OSError, w)
      else case writerows headers rows [headers] of
        (err, recs) \<Rightarrow>
          (case err of None \<Rightarrow> Inr () | Some x \<Rightarrow> Inl x, w\<lparr>files := (files w)(out_path \<mapsto> recs)\<rparr>))"

section \<open>The prompt builders\<close>

text \<open>
  The fixed texts are those of the source. Seven of their characters lie above code point 255;
  they stand here as their UTF-8 bytes.
\<close>

definition ldquo :: string where "ldquo = [CHR 0xE2, CHR 0x80, CHR 0x9C]"
definition rdquo :: string where "rdquo = [CHR 0xE2, CHR 0x80, CHR 0x9D]"
definition bullet :: string where "bullet = [CHR 0xE2, CHR 0x80, CHR 0xA2]"
definition ndash :: string where "ndash = [CHR 0xE2, CHR 0x80, CHR 0x93]"
definition mdash :: string where "mdash = [CHR 0xE2, CHR 0x80, CHR 0x94]"
definition rsquo :: string where "rsquo = [CHR 0xE2, CHR 0x80, CHR 0x99]"
definition rarrow :: string where "rarrow = [CHR 0xE2, CHR 0x86, CHR 0x92]"

definition get_participants_prompt :: "string \<Rightarrow> message list" where
  "get_participants_prompt sop_text =
     [\<lparr>role = ''system'', content =
       ''You are a process modelling expert.''\<rparr>,
      \<lparr>role = ''user'', content =
       ''Identify the main participants that execute the processes mentioned the Standard Operating Procedure given below.\<newline>'' @
       ''Return a simple, single-level numbered list (e.g. '' @ ldquo @ ''1. Alice'' @ rdquo @ '', '' @ ldquo @ ''2. Bob'' @ rdquo @ ''), with no extra text using only alphanumeric characters and spaces (no special characters):\<newline>\<newline>'' @
       ''```\<newline>'' @
       sop_text @
       ''\<newline>'' @
       ''```''\<rparr>]"

definition get_bpmn_prompt :: "string \<Rightarrow> string \<Rightarrow> message list" where
  "get_bpmn_prompt participant sop_text =
     [\<lparr>role = ''system'', content =
       ''You are an expert in BPMN 2.0 process modelling.''\<rparr>,
      \<lparr>role = ''user'', content =
       ''As the participant **'' @
       participant @
       ''** trying to understand what you need to do within this standard operating procedure and how you collaborate with the other participants based on the Standard Operating Procedure given below. Create a single Formalised Process Data table using the BPMN 2.0 Standard relating to all processes that you participate in, ensuring that all steps are represented.The tasks must fit within a single swim lane with a single start event.The result must be given in Markdown format, as a table with exactly these columns(nothing additional):\<newline>\<newline>'' @
       ''| Object Type         | Object Name                           | Predecessor                           | Successor                                                               | Input Data                                    | Output Data                                  | Additional Information                                                |\<newline>'' @
       ''| ------------------- | ------------------------------------- | ------------------------------------- | ----------------------------------------------------------------------- | --------------------------------------------- | -------------------------------------------- | --------------------------------------------------------------------- |\<newline>'' @
       bullet @ '' Start Event         | Start Condition                       | N/A                                   | Name of next Object                                                     | N/A                                           | N/A                                          |                                                                       |\<newline>'' @
       bullet @ '' Receive Task        | Task X (where a message is recieved)  |                                       | Name of next Object                                                     |                                               | Name of Data Object 1; Name of Data Object 2 |                                                                       |\<newline>'' @
       bullet @ '' Gateway (Exclusive) | Condition for splitting sequence flow |                                       | Name of next Object (Condition 1) OR Name of next Object (Condition 2)  |                                               |                                              |                                                                       |\<newline>'' @
       bullet @ '' Send Task           | Task Y (where a message is sent)      | Only Object Name of Exclusive Gateway |                                                                         | Name of Data Object 1                         | Name of Data Object 3                        |                                                                       |\<newline>'' @
       bullet @ '' Task                | Task Z                                | Only Object Name of Exclusive Gateway |                                                                         | Name of Data Object 1                         | Name of Data Object 4                        | Additional information if any (special conditions, constraints, etc.) |\<newline>'' @
       bullet @ '' Gateway (Parallel)  | Parallel Gateway name                 |                                       | Name of Successor 1 AND Name of Successor 2.                            |                                               |                                              |                                                                       |\<newline>'' @
       bullet @ '' Task                | Task A                                | Only Object Name of Parallel Gateway  |                                                                         |                                               |                                              |                                                                       |\<newline>'' @
       bullet @ '' Task                | Task B                                | Only Object name of Parallel Gateway  |                                                                         | Name of Data Object 2; Name of Data Object 3  |                                              |                                                                       |\<newline>'' @
       bullet @ '' Intermediate Event  | Event Name                            | Task B                                | Task C                                                                  | N/A                                           | N/A                                          |                                                                       |\<newline>'' @
       bullet @ '' Task                | Task C                                | Event Name                            | End Condition                                                           | Name of Data Object 2                         |                                              |                                                                       |\<newline>'' @
       bullet @ '' End Event           | End Condition                         |                                       | N/A                                                                     | N/A                                           | N/A                                          |                                                                       |\<newline>\<newline>'' @
       ''Use **only** these column headers and rows that reflect your own processes '' @ ndash @ '' no extra section headings, labels or comments.  \<newline>\<newline>'' @
       ''```\<newline>'' @
       sop_text @
       ''\<newline>'' @
       ''```''\<rparr>]"

definition system_content :: string where
  "system_content =
       ''You are a process modeling expert trying to understand interactions between participants. Given below are markdown tables which specify the send and receive tasks as well as the associated data for each participant.Analyze all the participant'' @ rsquo @ ''s sending and receiving tasks to identify all the message flows between them.Return a single Markdown table with exactly these columns:\<newline>\<newline>'' @
       ''| Message Sent             | Sending Task            | Sending Participant          | Receiving Task          | Receiving Participant         |\<newline>'' @
       ''| ------------------------ | ----------------------- | ---------------------------- | ----------------------- | ----------------------------- |\<newline>'' @
       ''| Name of Message Sent     | Name of Send Task       | Name of Sending Participant  | Name of Receive Task    | Name of Receiving Participant |\<newline>\<newline>'' @
       ''Only list Send '' @ rarrow @ '' Receive flows that logically belong together.''"

definition or_dash :: "string \<Rightarrow> string" where
  \<comment> \<open>\<^verbatim>\<open>s or "..."\<close> with the dash of the source: the empty string is false\<close>
  "or_dash s = (if s = [] then mdash else s)"

fun mini_rows :: "row list \<Rightarrow> string \<Rightarrow> string" where
  \<comment> \<open>the loop over \<^verbatim>\<open>activities\<close>, \<open>mini_table\<close> the text built so far\<close>
  "mini_rows [] mini_table = mini_table"
| "mini_rows (act # rest) mini_table =
     (let task_type = strip (dict_get act ''Object Type'' []);
          task_name = strip (dict_get act ''Object Name'' []);
          output_data = or_dash (strip (dict_get act ''Output Data'' []));
          input_data = or_dash (strip (dict_get act ''Input Data'' []))
      in mini_rows rest (mini_table @ ''| '' @ task_type @ '' | '' @ task_name @ '' | '' @
                         output_data @ '' | '' @ input_data @ '' |\<newline>''))"

fun user_sections :: "(string, string) dict \<Rightarrow> string list \<Rightarrow> string list" where
  \<comment> \<open>the loop over \<^verbatim>\<open>bpmn_tables.items()\<close>, \<open>secs\<close> the sections built so far. The source
      computes \<^verbatim>\<open>mini_table\<close> and does not use it.\<close>
  "user_sections [] secs = secs"
| "user_sections ((participant, md_table) # rest) secs =
     (let rows = parse_markdown_table md_table;
          activities = filter (\<lambda>r. map_of r ''Object Type'' \<in> {Some ''Send Task'', Some ''Receive Task''}) rows;
          mini_table = mini_rows activities (
       ''| Task Type | Task Name | Output Data | Input Data |\<newline>'' @
       ''| --------- | --------- | ----------- | ---------- |\<newline>'')
      in user_sections rest (secs @ [''Tasks for '' @ participant @ '':\<newline>\<newline>'' @ md_table @ ''\<newline>'']))"

definition get_message_flows_prompt :: "(string, string) dict \<Rightarrow> message list" where
  "get_message_flows_prompt bpmn_tables =
     (let user_content = join ''\<newline>\<newline>'' (user_sections bpmn_tables []) in
      [\<lparr>role = ''system'', content = system_content\<rparr>,
       \<lparr>role = ''user'', content = user_content\<rparr>])"

section \<open>\<^verbatim>\<open>main\<close>\<close>

definition headers :: "string list" where
  "headers = [''Object Type'', ''Object Name'', ''Predecessor'', ''Successor'', ''Input Data'',
              ''Output Data'', ''Additional Information'']"

definition mf_headers :: "string list" where
  "mf_headers = [''Message Sent'', ''Sending Task'', ''Sending Participant'', ''Receiving Task'',
                 ''Receiving Participant'']"

definition out_path :: "string \<Rightarrow> string \<Rightarrow> string" where
  \<comment> \<open>\<^verbatim>\<open>safe = re.sub(...)\<close> and \<^verbatim>\<open>out = os.path.join(output_dir, f"{safe}_bpmn.csv")\<close>\<close>
  "out_path output_dir p = path_join output_dir (safe p @ ''_bpmn.csv'')"

fun bpmn_loop ::
  "env \<Rightarrow> string \<Rightarrow> string \<Rightarrow> string list \<Rightarrow> (string, string) dict \<Rightarrow> world \<Rightarrow>
   (error + (string, string) dict) \<times> world" where
  \<comment> \<open>the loop over \<^verbatim>\<open>participants\<close>; an exception leaves the loop and \<^verbatim>\<open>main\<close>\<close>
  "bpmn_loop e sop_text output_dir [] bpmn_tables w = (Inr bpmn_tables, w)"
| "bpmn_loop e sop_text output_dir (p # ps) bpmn_tables w =
     (case call_gpt e (get_bpmn_prompt p sop_text) (say (Generating_BPMN p) w) of
        (Inl err, w1) \<Rightarrow> (Inl err, w1)
      | (Inr md, w1) \<Rightarrow>
          let rows = parse_markdown_table md in
          if rows = [] then
            bpmn_loop e sop_text output_dir ps bpmn_tables (say (Could_Not_Parse_Table p md) w1)
          else
            let out = out_path output_dir p in
            (case write_csv e rows headers out w1 of
               (Inl err, w2) \<Rightarrow> (Inl err, w2)
             | (Inr u, w2) \<Rightarrow>
                 bpmn_loop e sop_text output_dir ps (dict_set bpmn_tables p md)
                   (say (Rows_Written (length rows) out) w2)))"

definition message_flows :: "env \<Rightarrow> string \<Rightarrow> (string, string) dict \<Rightarrow> world \<Rightarrow> error option \<times> world" where
  \<comment> \<open>the body of \<^verbatim>\<open>if bpmn_tables:\<close>\<close>
  "message_flows e output_dir bpmn_tables w =
     (case call_gpt e (get_message_flows_prompt bpmn_tables) (say Generating_Message_Flows w) of
        (Inl err, w1) \<Rightarrow> (Some err, w1)
      | (Inr mf, w1) \<Rightarrow>
          let mf_rows = parse_markdown_table mf in
          if mf_rows \<noteq> [] then
            let out_msg = path_join output_dir ''message_flows.csv'' in
            (case write_csv e mf_rows mf_headers out_msg w1 of
               (Inl err, w2) \<Rightarrow> (Some err, w2)
             | (Inr u, w2) \<Rightarrow> (None, say (Flows_Written (length mf_rows) out_msg) w2))
          else (None, say (Could_Not_Parse_Message_Flows mf) w1))"

definition main :: "env \<Rightarrow> string \<Rightarrow> string \<Rightarrow> world \<Rightarrow> error option \<times> world" where
  \<comment> \<open>the result is the exception that ended the run, if one did\<close>
  "main e pdf_path output_dir w =
     (let w0 = say (Reading_PDF pdf_path) w in
      case pdf_text e pdf_path of
        Inl err \<Rightarrow> (Some err, w0)
      | Inr sop_text \<Rightarrow>
          if strip sop_text = [] then (None, say No_Text_Extracted w0)
          else
            (case call_gpt e (get_participants_prompt sop_text) (say Identifying_Participants w0) of
               (Inl err, w1) \<Rightarrow> (Some err, w1)
             | (Inr resp, w1) \<Rightarrow>
                 let participants = parse_numbered_list resp in
                 if participants = [] then
                   (None, say (Raw_Response resp) (say Failed_To_Parse_Participants w1))
                 else
                   (case bpmn_loop e sop_text output_dir participants []
                           (say (Found_Participants participants) w1) of
                      (Inl err, w2) \<Rightarrow> (Some err, w2)
                    | (Inr bpmn_tables, w2) \<Rightarrow>
                        if bpmn_tables \<noteq> [] then
                          (case message_flows e output_dir bpmn_tables w2 of
                             (Some err, w3) \<Rightarrow> (Some err, w3)
                           | (None, w3) \<Rightarrow> (None, say All_Done w3))
                        else (None, say All_Done w2))))"

section \<open>Notions of the specification\<close>

subsection \<open>The cells of a table line\<close>

text \<open>
  The specification speaks of stripping a single leading and a single trailing pipe from a
  table line. These two definitions follow its words.
\<close>

definition strip_single :: "char \<Rightarrow> string \<Rightarrow> string" where
  "strip_single c s =
     (let s1 = (case s of [] \<Rightarrow> [] | x # xs \<Rightarrow> if x = c then xs else s)
      in if s1 \<noteq> [] \<and> last s1 = c then butlast s1 else s1)"

definition row_cells_single :: "string \<Rightarrow> string list" where
  "row_cells_single row = map strip (split CHR ''|'' (strip_single CHR ''|'' row))"

subsection \<open>The rendering of a table\<close>

text \<open>
  The rendering of a pipe table, as the prompts of the source write their tables: every cell
  stands between a space and a space, the cells of a line between pipes; a header line, a
  separator line and one line per row, joined by line feeds. A cell is well-formed when it
  holds no pipe and no line boundary and is its own trimming.
\<close>

definition wellformed_cell :: "string \<Rightarrow> bool" where
  "wellformed_cell c = (CHR ''|'' \<notin> set c \<and> \<not> list_ex islinebreak c \<and> strip c = c)"

definition render_row :: "string list \<Rightarrow> string" where
  "render_row cells = ''| '' @ join '' | '' cells @ '' |''"

definition render_table :: "string list \<Rightarrow> string list list \<Rightarrow> string" where
  "render_table H rows =
     join ''\<newline>'' (render_row H # render_row (map (\<lambda>h. ''---'') H) # map render_row rows)"

subsection \<open>The lines of a numbered list\<close>

text \<open>
  The lines of a numbered list. A reading of a line is a way to cut it into an index of one or
  more digits, an optional dot, whitespace and a label that is not empty; \<open>numbered_labels\<close>
  lists the trimmed label of every reading of a line (all readings of a line give the same
  one), and \<open>indented_labels\<close> lets whitespace stand before the index. \<open>listed\<close> is the
  sequence of the labels of the lines that have a reading, in the order of the lines.
\<close>

definition splits :: "'a list \<Rightarrow> ('a list \<times> 'a list) list" where
  "splits xs = map (\<lambda>i. (take i xs, drop i xs)) [0..<Suc (length xs)]"

definition after_index :: "string \<Rightarrow> string list" where
  "after_index line =
     map snd (filter (\<lambda>(index, r). index \<noteq> [] \<and> list_all isdigit index) (splits line))"

definition after_dot :: "string \<Rightarrow> string list" where
  "after_dot r = map snd (filter (\<lambda>(dot, r'). dot = [] \<or> dot = ''.'') (splits r))"

definition after_space :: "string \<Rightarrow> string list" where
  "after_space r =
     map snd (filter (\<lambda>(ws, label). ws \<noteq> [] \<and> list_all isspace ws \<and> label \<noteq> []) (splits r))"

definition numbered_labels :: "string \<Rightarrow> string list" where
  "numbered_labels line =
     map strip (concat (map after_space (concat (map after_dot (after_index line)))))"

definition after_indent :: "string \<Rightarrow> string list" where
  "after_indent line = map snd (filter (\<lambda>(ind, r). list_all isspace ind) (splits line))"

definition indented_labels :: "string \<Rightarrow> string list" where
  "indented_labels line = concat (map numbered_labels (after_indent line))"

definition listed :: "(string \<Rightarrow> string list) \<Rightarrow> string \<Rightarrow> string list" where
  "listed labels text = concat (map (\<lambda>line. remdups (labels line)) (splitlines text))"

subsection \<open>The name of an artifact\<close>

text \<open>
  The specification describes the name of an artifact as the label with its runs of characters
  that are neither alphanumeric nor a hyphen collapsed to one underscore. \<open>collapse\<close> reads
  a label from left to right and remembers whether it stands in such a run.
\<close>

definition isalnum :: "char \<Rightarrow> bool" where
  "isalnum c = (isword c \<and> c \<noteq> CHR ''_'')"

fun collapse :: "(char \<Rightarrow> bool) \<Rightarrow> bool \<Rightarrow> string \<Rightarrow> string" where
  "collapse P inrun [] = []"
| "collapse P inrun (c # cs) =
     (if P c then (if inrun then collapse P True cs else CHR ''_'' # collapse P True cs)
      else c # collapse P False cs)"

definition sanitized_label :: "string \<Rightarrow> string" where
  "sanitized_label p = collapse (\<lambda>c. \<not> isalnum c \<and> c \<noteq> CHR ''-'') False p"

section \<open>The worlds after one participant\<close>

text \<open>
  \<open>csv_records\<close> gives the records of a file written without an exception. The worlds
  after one participant of the loop are \<open>skipped\<close> when the reply holds no record,
  \<open>written\<close> when its records went to the artifact of the participant. A reply is
  \<open>accepted\<close> when it parses to at least one record, the path of the artifact can be written
  and every column of the records is one of the seven of \<open>headers\<close>.
\<close>

definition csv_records :: "string list \<Rightarrow> row list \<Rightarrow> string list list" where
  "csv_records hs rows = hs # map (\<lambda>r. map (\<lambda>k. dict_get r k []) hs) rows"

definition skipped :: "string \<Rightarrow> string \<Rightarrow> string \<Rightarrow> world \<Rightarrow> world" where
  "skipped sop_text p md w =
     \<lparr>calls = calls w @ [get_bpmn_prompt p sop_text], files = files w,
      printed = printed w @ [Generating_BPMN p, Could_Not_Parse_Table p md]\<rparr>"

definition written :: "string \<Rightarrow> string \<Rightarrow> string \<Rightarrow> string \<Rightarrow> world \<Rightarrow> world" where
  "written sop_text output_dir p md w =
     \<lparr>calls = calls w @ [get_bpmn_prompt p sop_text],
      files = (files w)(out_path output_dir p \<mapsto> csv_records headers (parse_markdown_table md)),
      printed = printed w @ [Generating_BPMN p,
                  Rows_Written (length (parse_markdown_table md)) (out_path output_dir p)]\<rparr>"

definition accepted :: "env \<Rightarrow> string \<Rightarrow> string \<Rightarrow> string \<Rightarrow> bool" where
  "accepted e output_dir p md =
     (parse_markdown_table md \<noteq> [] \<and> writable e (out_path output_dir p) \<and>
      list_all (\<lambda>r. set (keys r) \<subseteq> set headers) (parse_markdown_table md))"

section \<open>Sample replies and environments\<close>

definition world0 :: world where
  "world0 = \<lparr>calls = [], files = Map.empty, printed = []\<rparr>"

definition asked :: world where
  "asked = \<lparr>calls = [get_participants_prompt ''doc''], files = Map.empty,
             printed = [Found_Participants [''A'', ''B'', ''C'']]\<rparr>"

definition sample_table :: string where
  "sample_table = ''| Object Type | Object Name |\<newline>| --- | --- |\<newline>| Task | Pay |''"

definition second_table :: string where
  "second_table = ''| Object Type | Object Name |\<newline>| --- | --- |\<newline>| Task | Ship |''"

definition extra_table :: string where
  "extra_table = ''| Object Type | Owner |\<newline>| --- | --- |\<newline>| Task | Bob |''"

definition blank_env :: env where
  "blank_env = \<lparr>pdf_text = (\<lambda>p. Inr '' \<newline> ''), client = (\<lambda>n m. Inr ''1. A''), writable = (\<lambda>p. True)\<rparr>"

definition table_env :: env where
  "table_env = \<lparr>pdf_text = (\<lambda>p. Inr ''doc''), client = (\<lambda>n m. Inr sample_table), writable = (\<lambda>p. True)\<rparr>"



definition failing_env :: env where
  "failing_env = \<lparr>pdf_text = (\<lambda>p. Inr ''doc''),
                   client = (\<lambda>n m. if n = 0 then Inr ''1. A\<newline>2. B\<newline>3. C''
                                    else if n = 2 then Inl RemoteCallError else Inr sample_table),
                   writable = (\<lambda>p. True)\<rparr>"

definition unparsed_env :: env where
  "unparsed_env = \<lparr>pdf_text = (\<lambda>p. Inr ''doc''),
                   client = (\<lambda>n m. if n = 0 then Inr ''1. A\<newline>2. B\<newline>3. C''
                                    else if n = 1 then Inr sample_table
                                    else if n = 2 then Inr ''I cannot help with that.''
                                    else if n = 3 then Inr second_table
                                    else Inr ''no flows''),
                   writable = (\<lambda>p. True)\<rparr>"

definition extra_env :: env where
  "extra_env = \<lparr>pdf_text = (\<lambda>p. Inr ''doc''),
                 client = (\<lambda>n m. if n = 0 then Inr ''1. A\<newline>2. B\<newline>3. C''
                                  else if n = 2 then Inr extra_table else Inr sample_table),
                 writable = (\<lambda>p. True)\<rparr>"

section \<open>Properties of the text primitives\<close>

lemma dropWhile_all: "\<forall>x\<in>set s. P x \<Longrightarrow> dropWhile P s = []"
  by simp

lemma dropWhile_all_iff: "(\<forall>x\<in>set (dropWhile P s). P x) \<longleftrightarrow> (\<forall>x\<in>set s. P x)"
proof
  assume "\<forall>x\<in>set s. P x"
  then show "\<forall>x\<in>set (dropWhile P s). P x" by (blast dest: set_dropWhileD)
next
  assume a: "\<forall>x\<in>set (dropWhile P s). P x"
  have "dropWhile P s = []"
  proof (rule ccontr)
    assume n: "dropWhile P s \<noteq> []"
    then have "\<not> P (hd (dropWhile P s))" by (rule hd_dropWhile)
    moreover have "hd (dropWhile P s) \<in> set (dropWhile P s)" using n by (rule hd_in_set)
    ultimately show False using a by blast
  qed
  then show "\<forall>x\<in>set s. P x" by (simp only: dropWhile_eq_Nil_conv)
qed

lemma strip_empty_iff: "strip s = [] \<longleftrightarrow> (\<forall>c\<in>set s. isspace c)"
  by (simp add: strip_def dropWhile_eq_Nil_conv dropWhile_all_iff)

lemma isspace_simps: "isspace CHR '' ''" "isspace CHR ''\<newline>''" "\<not> isspace CHR ''|''"
  by (simp_all add: isspace_def)

lemma trim_pad:
  assumes "\<forall>x\<in>set a. P x" and "\<forall>x\<in>set b. P x"
  shows "rev (dropWhile P (rev (dropWhile P (a @ s @ b)))) = rev (dropWhile P (rev (dropWhile P s)))"
proof -
  have 1: "dropWhile P (a @ s @ b) = dropWhile P (s @ b)"
    using assms(1) by (simp add: dropWhile_append2)
  show ?thesis
  proof (cases "\<forall>x\<in>set s. P x")
    case True
    then have "\<forall>x\<in>set (s @ b). P x" using assms(2) by auto
    then have "dropWhile P (s @ b) = []" by (rule dropWhile_all)
    moreover have "dropWhile P s = []" using True by (rule dropWhile_all)
    ultimately show ?thesis using 1 by (simp only: rev.simps dropWhile.simps)
  next
    case False
    then obtain x where "x \<in> set s" "\<not> P x" by blast
    then have "dropWhile P (s @ b) = dropWhile P s @ b"
      by (simp add: dropWhile_append1)
    moreover have "dropWhile P (rev b @ rev (dropWhile P s)) = dropWhile P (rev (dropWhile P s))"
      by (rule dropWhile_append2) (use assms(2) in simp)
    ultimately show ?thesis using 1 by simp
  qed
qed

lemma trim_fix:
  assumes "s = [] \<or> (\<not> P (hd s) \<and> \<not> P (last s))"
  shows "rev (dropWhile P (rev (dropWhile P s))) = s"
proof (cases s)
  case Nil then show ?thesis by simp
next
  case (Cons x xs)
  with assms have h: "\<not> P x" and l: "\<not> P (last s)" by auto
  from h Cons have "dropWhile P s = s" by simp
  moreover have "dropWhile P (rev s) = rev s"
    using l Cons by (cases "rev s") (auto simp: hd_rev [symmetric] dest: arg_cong [where f = hd])
  ultimately show ?thesis by simp
qed

lemma trim_ends:
  "rev (dropWhile P (rev (dropWhile P s))) = [] \<or>
   (\<not> P (hd (rev (dropWhile P (rev (dropWhile P s))))) \<and>
    \<not> P (last (rev (dropWhile P (rev (dropWhile P s))))))"
proof (cases "dropWhile P (rev (dropWhile P s)) = []")
  case True then show ?thesis by simp
next
  case False
  let ?t = "dropWhile P s" and ?u = "dropWhile P (rev (dropWhile P s))"
  have u: "\<not> P (hd ?u)" using False by (rule hd_dropWhile)
  have t: "?t \<noteq> []"
  proof
    assume "?t = []"
    then have "?u = []" by (simp only: rev.simps dropWhile.simps)
    with False show False by blast
  qed
  then have ht: "\<not> P (hd ?t)" by (rule hd_dropWhile)
  have "last (takeWhile P (rev ?t) @ ?u) = last ?u"
    using False by (rule last_appendR)
  then have "last ?u = last (rev ?t)"
    by (simp only: takeWhile_dropWhile_id)
  then have "last ?u = hd ?t" using t by (simp add: last_rev)
  with u ht False show ?thesis by (simp add: hd_rev last_rev)
qed

lemma strip_idem: "strip (strip s) = strip s"
  unfolding strip_def by (rule trim_fix) (rule trim_ends)

lemmas text_defs = isspace_def islinebreak_def strip_def strip_chars_def startswith_def
  splitlines_def

section \<open>The table parser\<close>

lemma table_rows_acc: "table_rows hs body acc = acc @ table_rows hs body []"
proof (induction body arbitrary: acc)
  case Nil show ?case by simp
next
  case (Cons r rs)
  show ?case using Cons.IH [of "acc @ [dict (zip hs (row_cells r))]"] Cons.IH [of "[dict (zip hs (row_cells r))]"] Cons.IH [of acc]
    by (simp add: Let_def)
qed

lemma table_rows_closed:
  "table_rows hs body [] =
     map (\<lambda>r. dict (zip hs (row_cells r))) (filter (\<lambda>r. length (row_cells r) = length hs) body)"
proof (induction body)
  case Nil show ?case by simp
next
  case (Cons r rs)
  then show ?case using table_rows_acc [of hs rs "[dict (zip hs (row_cells r))]"]
    by (simp add: Let_def)
qed

text \<open>
  C4. A text with fewer than two qualifying lines (lines that begin with a pipe once trimmed)
  parses to no record. Otherwise the records are, in order, those of the body lines whose cell
  count is the header's; a body line with another cell count is dropped, and the lines before
  and after it are parsed as without it.
\<close>

theorem table_rejection:
  "(length (table_lines md) < 2 \<longrightarrow> parse_markdown_table md = []) \<and>
   (2 \<le> length (table_lines md) \<longrightarrow>
      parse_markdown_table md =
        map (\<lambda>r. dict (zip (row_cells (table_lines md ! 0)) (row_cells r)))
          (filter (\<lambda>r. length (row_cells r) = length (row_cells (table_lines md ! 0)))
             (drop 2 (table_lines md)))) \<and>
   (\<forall>h sep pre bad post.
      table_lines md = h # sep # pre @ bad # post \<and> length (row_cells bad) \<noteq> length (row_cells h) \<longrightarrow>
      parse_markdown_table md = table_rows (row_cells h) pre [] @ table_rows (row_cells h) post [])"
  by (auto simp: parse_markdown_table_def Let_def table_rows_closed)

theorem table_rejection_witness:
  "length (table_lines ''| a |'') < 2 \<and> parse_markdown_table ''| a |'' = [] \<and>
   2 \<le> length (table_lines ''| a | b |\<newline>|---|---|\<newline>| 1 | 2 |\<newline>| 3 |\<newline>| 4 | 5 |'') \<and>
   parse_markdown_table ''| a | b |\<newline>|---|---|\<newline>| 1 | 2 |\<newline>| 3 |\<newline>| 4 | 5 |'' =
     [[(''a'', ''1''), (''b'', ''2'')], [(''a'', ''4''), (''b'', ''5'')]]"
proof -
  let ?md = "''| a | b |\<newline>|---|---|\<newline>| 1 | 2 |\<newline>| 3 |\<newline>| 4 | 5 |''"
  have one: "table_lines ''| a |'' = [''| a |'']"
    by (simp add: table_lines_def text_defs)
  have lines: "table_lines ?md = ''| a | b |'' # ''|---|---|'' # [''| 1 | 2 |''] @ ''| 3 |'' # [''| 4 | 5 |'']"
    by (simp add: table_lines_def text_defs)
  have cells: "row_cells ''| a | b |'' = [''a'', ''b'']" "row_cells ''| 1 | 2 |'' = [''1'', ''2'']"
    "row_cells ''| 3 |'' = [''3'']" "row_cells ''| 4 | 5 |'' = [''4'', ''5'']"
    by (simp_all add: row_cells_def text_defs)
  have "parse_markdown_table ''| a |'' = []"
    using table_rejection [of "''| a |''"] one by simp
  moreover have "parse_markdown_table ?md =
      table_rows (row_cells ''| a | b |'') [''| 1 | 2 |''] [] @
      table_rows (row_cells ''| a | b |'') [''| 4 | 5 |''] []"
    using table_rejection [of ?md] lines cells by (metis length_Cons list.size(3) n_not_Suc_n)
  ultimately show ?thesis
    using one lines cells by (simp add: dict_def)
qed

text \<open>
  C3, as stated: one leading and one trailing pipe are stripped, so that a line ending in two
  pipes keeps an empty last cell. The code strips with \<^verbatim>\<open>strip("|")\<close>, which removes every
  leading and trailing pipe: the line \<^verbatim>\<open>|a||\<close> has the one cell \<^verbatim>\<open>a\<close>.
\<close>

theorem cells_counterexample:
  "row_cells ''|a||'' = [''a''] \<and> row_cells_single ''|a||'' = [''a'', '''']"
  by (simp add: row_cells_def row_cells_single_def strip_chars_def strip_single_def strip_def Let_def isspace_def)

text \<open>
  C3, amended: every leading and every trailing pipe of the line is stripped, the rest is split
  on pipe, and each cell is trimmed. Further pipes at the ends of a line add no cell.
\<close>

theorem cells_strip_every_pipe:
  assumes "core = [] \<or> (hd core \<noteq> CHR ''|'' \<and> last core \<noteq> CHR ''|'')"
  shows "row_cells (replicate m CHR ''|'' @ core @ replicate n CHR ''|'') = map strip (split CHR ''|'' core) \<and>
         (\<forall>c\<in>set (row_cells (replicate m CHR ''|'' @ core @ replicate n CHR ''|'')). strip c = c)"
proof -
  have "strip_chars ''|'' (replicate m CHR ''|'' @ core @ replicate n CHR ''|'') = strip_chars ''|'' core"
    unfolding strip_chars_def by (rule trim_pad) simp_all
  also have "\<dots> = core"
    unfolding strip_chars_def using assms by (intro trim_fix) simp
  finally show ?thesis by (auto simp: row_cells_def strip_idem)
qed

theorem cells_strip_every_pipe_witness:
  "row_cells ''|a | b||'' = [''a'', ''b''] \<and> map strip (row_cells ''|a | b||'') = row_cells ''|a | b||''"
  using cells_strip_every_pipe [of "''a | b''" 1 2]
  by (simp add: strip_def isspace_def numeral_2_eq_2)

section \<open>The prompt of the message flows\<close>

lemma user_sections_acc: "user_sections tables secs = secs @ user_sections tables []"
proof (induction tables arbitrary: secs)
  case Nil show ?case by simp
next
  case (Cons a tables)
  obtain p md where a: "a = (p, md)" by (cases a)
  show ?case
    using Cons.IH [of "secs @ [''Tasks for '' @ p @ '':\<newline>\<newline>'' @ md @ ''\<newline>'']"]
      Cons.IH [of "[''Tasks for '' @ p @ '':\<newline>\<newline>'' @ md @ ''\<newline>'']"]
    by (simp add: a Let_def)
qed

lemma user_sections_closed:
  "user_sections tables [] = map (\<lambda>(p, md). ''Tasks for '' @ p @ '':\<newline>\<newline>'' @ md @ ''\<newline>'') tables"
proof (induction tables)
  case Nil show ?case by simp
next
  case (Cons a tables)
  obtain p md where a: "a = (p, md)" by (cases a)
  show ?case
    using Cons.IH user_sections_acc [of tables "[''Tasks for '' @ p @ '':\<newline>\<newline>'' @ md @ ''\<newline>'']"]
    by (simp add: a Let_def)
qed

text \<open>
  C6. The user message of \<^verbatim>\<open>get_message_flows_prompt\<close> is made of one section per entry of the
  map, in the order of the map: the label line \<^verbatim>\<open>Tasks for <participant>:\<close>, an empty line,
  the table text of that participant as it is, and a line break; the sections are joined by an
  empty line. The builder is a function of the map alone: it takes no world and returns none,
  so it calls no client.
\<close>

theorem message_flows_prompt_full_tables:
  "get_message_flows_prompt bpmn_tables =
     [\<lparr>role = ''system'', content = system_content\<rparr>,
      \<lparr>role = ''user'', content =
         join ''\<newline>\<newline>''
           (map (\<lambda>(participant, md_table). ''Tasks for '' @ participant @ '':\<newline>\<newline>'' @ md_table @ ''\<newline>'')
              bpmn_tables)\<rparr>]"
  by (simp add: get_message_flows_prompt_def user_sections_closed)

section \<open>The run\<close>

text \<open>
  C8. When the text read from the document is empty or holds only whitespace, the run prints
  that no text was extracted and returns: no conversation is sent and no file is written.
\<close>

theorem empty_document_aborts:
  assumes "pdf_text e pdf_path = Inr sop_text" and "\<forall>c\<in>set sop_text. isspace c"
  shows "main e pdf_path output_dir w =
           (None, \<lparr>calls = calls w, files = files w,
                   printed = printed w @ [Reading_PDF pdf_path, No_Text_Extracted]\<rparr>)"
  using assms by (simp add: main_def say_def strip_empty_iff)

theorem empty_document_aborts_witness:
  "pdf_text blank_env ''sop.pdf'' = Inr '' \<newline> '' \<and> list_all isspace '' \<newline> '' \<and>
   main blank_env ''sop.pdf'' ''out'' world0 =
     (None, \<lparr>calls = [], files = Map.empty, printed = [Reading_PDF ''sop.pdf'', No_Text_Extracted]\<rparr>)"
  using empty_document_aborts [of blank_env "''sop.pdf''" "'' \<newline> ''" "''out''" world0]
  by (simp add: blank_env_def world0_def isspace_simps)

section \<open>The artifact name\<close>

lemma safe_collapse:
  "collapse unsafe_char True cs = safe (dropWhile unsafe_char cs) \<and>
   collapse unsafe_char False cs = safe cs"
  by (induction cs) simp_all

lemma safe_chars: "c \<in> set (safe p) \<Longrightarrow> \<not> unsafe_char c"
proof (induction p rule: safe.induct)
  case 1 then show ?case by simp
next
  case (2 d ds)
  have "\<not> unsafe_char CHR ''_''" by (simp add: unsafe_char_def isword_def)
  with 2 show ?case by (auto split: if_splits)
qed

lemmas class_defs = unsafe_char_def isword_def isalnum_def

section \<open>One participant of the loop\<close>

lemma writerows_ok:
  "\<forall>r\<in>set rows. set (keys r) \<subseteq> set hs \<Longrightarrow>
   writerows hs rows acc = (None, acc @ map (\<lambda>r. map (\<lambda>k. dict_get r k []) hs) rows)"
  by (induction rows arbitrary: acc) simp_all

lemma write_csv_ok:
  assumes "writable e path" and "\<forall>r\<in>set rows. set (keys r) \<subseteq> set hs"
  shows "write_csv e rows hs path w =
           (Inr (), \<lparr>calls = calls w, files = (files w)(path \<mapsto> csv_records hs rows),
                     printed = printed w\<rparr>)"
  using assms by (cases w) (simp add: write_csv_def writerows_ok csv_records_def)

lemma bpmn_loop_raised:
  assumes "client e (length (calls w)) (get_bpmn_prompt p sop_text) = Inl err"
  shows "bpmn_loop e sop_text output_dir (p # ps) bpmn_tables w =
           (Inl err, \<lparr>calls = calls w @ [get_bpmn_prompt p sop_text], files = files w,
                       printed = printed w @ [Generating_BPMN p]\<rparr>)"
  using assms by (cases w) (simp add: call_gpt_def say_def)

lemma bpmn_loop_skipped:
  assumes "client e (length (calls w)) (get_bpmn_prompt p sop_text) = Inr reply"
    and "parse_markdown_table (strip reply) = []"
  shows "bpmn_loop e sop_text output_dir (p # ps) bpmn_tables w =
           bpmn_loop e sop_text output_dir ps bpmn_tables
             \<lparr>calls = calls w @ [get_bpmn_prompt p sop_text], files = files w,
              printed = printed w @ [Generating_BPMN p, Could_Not_Parse_Table p (strip reply)]\<rparr>"
  using assms by (cases w) (simp add: call_gpt_def say_def)

lemma bpmn_loop_written:
  assumes "client e (length (calls w)) (get_bpmn_prompt p sop_text) = Inr reply"
    and "parse_markdown_table (strip reply) \<noteq> []"
    and "writable e (out_path output_dir p)"
    and "\<forall>r\<in>set (parse_markdown_table (strip reply)). set (keys r) \<subseteq> set headers"
  shows "bpmn_loop e sop_text output_dir (p # ps) bpmn_tables w =
           bpmn_loop e sop_text output_dir ps (dict_set bpmn_tables p (strip reply))
             \<lparr>calls = calls w @ [get_bpmn_prompt p sop_text],
              files = (files w)(out_path output_dir p \<mapsto>
                        csv_records headers (parse_markdown_table (strip reply))),
              printed = printed w @ [Generating_BPMN p,
                          Rows_Written (length (parse_markdown_table (strip reply)))
                            (out_path output_dir p)]\<rparr>"
  using assms by (cases w) (simp add: call_gpt_def say_def write_csv_ok Let_def)

lemmas parse_defs = parse_markdown_table_def table_lines_def row_cells_def dict_def text_defs

lemma sample_table_parsed:
  "strip sample_table = sample_table"
  "parse_markdown_table sample_table = [[(''Object Type'', ''Task''), (''Object Name'', ''Pay'')]]"
  by (simp_all add: sample_table_def parse_defs)

text \<open>
  C7, as stated: a run of characters that are neither alphanumeric nor a hyphen, underscores
  among them, becomes one underscore. The code replaces with the class \<^verbatim>\<open>[^\w\-]\<close>, and
  \<^verbatim>\<open>\w\<close> holds the underscore: the underscores of a label stay as they are.
\<close>

theorem sanitized_counterexample:
  "safe ''a__b'' = ''a__b'' \<and> sanitized_label ''a__b'' = ''a_b''"
  by (simp add: sanitized_label_def class_defs)

text \<open>
  C7, amended: for a participant whose reply parses to at least one record, the artifact is
  written to \<^verbatim>\<open><output_dir>/<safe>_bpmn.csv\<close> (for an output directory that is not empty
  and does not end in a slash), where \<^verbatim>\<open><safe>\<close> is the label with every maximal run of
  characters that are neither word characters (alphanumeric or underscore) nor a hyphen
  replaced by one underscore.
\<close>

theorem artifact_path:
  assumes "output_dir \<noteq> []" and "last output_dir \<noteq> CHR ''/''"
    and "client e (length (calls w)) (get_bpmn_prompt p sop_text) = Inr reply"
    and "parse_markdown_table (strip reply) \<noteq> []"
    and "writable e (out_path output_dir p)"
    and "\<forall>r\<in>set (parse_markdown_table (strip reply)). set (keys r) \<subseteq> set headers"
  shows "out_path output_dir p = output_dir @ ''/'' @ collapse unsafe_char False p @ ''_bpmn.csv'' \<and>
         bpmn_loop e sop_text output_dir [p] bpmn_tables w =
           (Inr (dict_set bpmn_tables p (strip reply)),
            \<lparr>calls = calls w @ [get_bpmn_prompt p sop_text],
             files = (files w)(output_dir @ ''/'' @ collapse unsafe_char False p @ ''_bpmn.csv'' \<mapsto>
                       csv_records headers (parse_markdown_table (strip reply))),
             printed = printed w @ [Generating_BPMN p,
                         Rows_Written (length (parse_markdown_table (strip reply)))
                           (output_dir @ ''/'' @ collapse unsafe_char False p @ ''_bpmn.csv'')]\<rparr>)"
proof -
  have "\<not> startswith (safe p @ ''_bpmn.csv'') ''/''"
  proof (cases "safe p")
    case Nil then show ?thesis by (simp add: startswith_def)
  next
    case (Cons c cs)
    then have "\<not> unsafe_char c" using safe_chars [of c p] by simp
    then have "c \<noteq> CHR ''/''" by (auto simp: unsafe_char_def isword_def)
    with Cons show ?thesis by (simp add: startswith_def)
  qed
  then have path: "out_path output_dir p = output_dir @ ''/'' @ collapse unsafe_char False p @ ''_bpmn.csv''"
    using assms(1,2) by (simp add: out_path_def path_join_def safe_collapse)
  show ?thesis
    using bpmn_loop_written [OF assms(3-6), where ps = "[]" and bpmn_tables = bpmn_tables] path by simp
qed

theorem artifact_path_witness:
  "out_path ''out'' ''a_ b'' = ''out/a__b_bpmn.csv'' \<and>
   bpmn_loop table_env ''doc'' ''out'' [''a_ b''] [] world0 =
     (Inr [(''a_ b'', sample_table)],
      \<lparr>calls = [get_bpmn_prompt ''a_ b'' ''doc''],
       files = [''out/a__b_bpmn.csv'' \<mapsto> [headers, [''Task'', ''Pay'', [], [], [], [], []]]],
       printed = [Generating_BPMN ''a_ b'', Rows_Written 1 ''out/a__b_bpmn.csv'']\<rparr>)"
proof -
  have h1: "''out'' \<noteq> []" and h2: "last ''out'' \<noteq> CHR ''/''"
    by simp_all
  have h3: "client table_env (length (calls world0)) (get_bpmn_prompt ''a_ b'' ''doc'') = Inr sample_table"
    by (simp add: table_env_def)
  have h4: "parse_markdown_table (strip sample_table) \<noteq> []"
    by (simp add: sample_table_parsed)
  have h5: "writable table_env (out_path ''out'' ''a_ b'')"
    by (simp add: table_env_def)
  have h6: "\<forall>r\<in>set (parse_markdown_table (strip sample_table)). set (keys r) \<subseteq> set headers"
    by (simp add: sample_table_parsed keys_def headers_def)
  from artifact_path [OF h1 h2 h3 h4 h5 h6, of "[]"] show ?thesis
    by (simp add: class_defs csv_records_def dict_get_def headers_def sample_table_parsed world0_def
        del: bpmn_loop.simps)
qed

section \<open>The round trip of a rendered table\<close>

lemma splitlines_from_nobreak:
  "\<not> list_ex islinebreak l \<Longrightarrow>
   splitlines_from cur (l @ CHR ''\<newline>'' # rest) = (cur @ l) # splitlines_from [] rest"
proof (induction l arbitrary: cur)
  case Nil
  show ?case by (cases rest) (simp_all add: islinebreak_def)
next
  case (Cons x xs)
  obtain d cs where t: "xs @ CHR ''\<newline>'' # rest = d # cs" by (cases xs) auto
  from Cons.prems have x: "\<not> islinebreak x" and xs: "\<not> list_ex islinebreak xs" by simp_all
  from x have cr: "x \<noteq> CHR 0x0D" by (auto simp: islinebreak_def)
  have "splitlines_from cur (x # d # cs) = splitlines_from (cur @ [x]) (d # cs)"
    using x cr by simp
  then show ?case using Cons.IH [OF xs, of "cur @ [x]"] t by simp
qed

lemma splitlines_from_end:
  "\<not> list_ex islinebreak l \<Longrightarrow> cur @ l \<noteq> [] \<Longrightarrow> splitlines_from cur l = [cur @ l]"
proof (induction cur l rule: splitlines_from.induct)
  case (1 cur) then show ?case by simp
next
  case (2 cur c) then show ?case by simp
next
  case (3 cur c d cs)
  then have c: "\<not> islinebreak c" by simp
  then have "c \<noteq> CHR 0x0D" by (auto simp: islinebreak_def)
  with 3 c show ?case by simp
qed

lemma splitlines_join:
  "\<forall>l\<in>set ls. l \<noteq> [] \<and> \<not> list_ex islinebreak l \<Longrightarrow> splitlines (join ''\<newline>'' ls) = ls"
proof (induction "''\<newline>''" ls rule: join.induct)
  case 1 show ?case by (simp add: splitlines_def)
next
  case (2 x) then show ?case by (simp add: splitlines_def splitlines_from_end)
next
  case (3 x y ys)
  then have "splitlines (join ''\<newline>'' (y # ys)) = y # ys" by simp
  moreover have "\<not> list_ex islinebreak x" using 3 by simp
  ultimately show ?case
    using splitlines_from_nobreak [of x "[]" "join ''\<newline>'' (y # ys)"]
    by (simp add: splitlines_def)
qed

lemma split_nosep: "sep \<notin> set s \<Longrightarrow> split sep s = [s]"
  by (induction s) (auto simp: Let_def)

lemma split_sep: "sep \<notin> set a \<Longrightarrow> split sep (a @ sep # b) = a # split sep b"
  by (induction a) (auto simp: Let_def)

lemma split_padded:
  "cells \<noteq> [] \<Longrightarrow> \<forall>c\<in>set cells. CHR ''|'' \<notin> set c \<Longrightarrow>
   split CHR ''|'' ('' '' @ join '' | '' cells @ '' '') = map (\<lambda>c. '' '' @ c @ '' '') cells"
proof (induction "'' | ''" cells rule: join.induct)
  case 1 then show ?case by simp
next
  case (2 x) then show ?case using split_nosep [of "CHR ''|''" "'' '' @ x @ '' ''"] by simp
next
  case (3 x y ys)
  have e: "'' '' @ join '' | '' (x # y # ys) @ '' '' =
        ('' '' @ x @ '' '') @ CHR ''|'' # ('' '' @ join '' | '' (y # ys) @ '' '')" by simp
  have "CHR ''|'' \<notin> set ('' '' @ x @ '' '')" using 3 by simp
  then have "split CHR ''|'' (('' '' @ x @ '' '') @ CHR ''|'' # ('' '' @ join '' | '' (y # ys) @ '' '')) =
        ('' '' @ x @ '' '') # split CHR ''|'' ('' '' @ join '' | '' (y # ys) @ '' '')"
    by (rule split_sep)
  then have "split CHR ''|'' ('' '' @ join '' | '' (x # y # ys) @ '' '') =
        ('' '' @ x @ '' '') # split CHR ''|'' ('' '' @ join '' | '' (y # ys) @ '' '')"
    by (simp only: e)
  with 3 show ?case by simp
qed

lemma strip_padded: "strip c = c \<Longrightarrow> strip ('' '' @ c @ '' '') = c"
proof -
  assume c: "strip c = c"
  have "strip ('' '' @ c @ '' '') = strip c"
    unfolding strip_def by (rule trim_pad) (simp_all add: isspace_def)
  with c show ?thesis by simp
qed

lemma row_cells_render:
  assumes "cells \<noteq> []" and "list_all wellformed_cell cells"
  shows "row_cells (render_row cells) = cells"
proof -
  let ?inner = "'' '' @ join '' | '' cells @ '' ''"
  have r: "render_row cells = ''|'' @ ?inner @ ''|''" by (simp add: render_row_def)
  have "strip_chars ''|'' (''|'' @ ?inner @ ''|'') = strip_chars ''|'' ?inner"
    unfolding strip_chars_def by (rule trim_pad) simp_all
  also have "\<dots> = ?inner"
    unfolding strip_chars_def by (rule trim_fix) simp
  finally have "row_cells (render_row cells) = map strip (split CHR ''|'' ?inner)"
    by (simp only: row_cells_def r)
  also have "\<dots> = map strip (map (\<lambda>c. '' '' @ c @ '' '') cells)"
    using assms by (subst split_padded) (auto simp: list_all_iff wellformed_cell_def)
  also have "\<dots> = cells"
  proof -
    have "\<forall>c\<in>set cells. strip ('' '' @ c @ '' '') = c"
    proof
      fix c assume "c \<in> set cells"
      with assms(2) have "strip c = c" by (simp add: list_all_iff wellformed_cell_def)
      then show "strip ('' '' @ c @ '' '') = c" by (rule strip_padded)
    qed
    then show ?thesis unfolding map_map o_def by (intro map_idI) blast
  qed
  finally show ?thesis .
qed

lemma join_nobreak:
  "\<not> list_ex islinebreak sep \<Longrightarrow> \<forall>x\<in>set xs. \<not> list_ex islinebreak x \<Longrightarrow>
   \<not> list_ex islinebreak (join sep xs)"
  by (induction sep xs rule: join.induct) simp_all

lemma render_row_line:
  assumes "list_all wellformed_cell cells"
  shows "render_row cells \<noteq> []" and "\<not> list_ex islinebreak (render_row cells)"
    and "strip (render_row cells) = render_row cells" and "startswith (render_row cells) ''|''"
proof -
  show "render_row cells \<noteq> []" by (simp add: render_row_def)
  have "\<not> list_ex islinebreak (join '' | '' cells)"
    using assms by (intro join_nobreak) (auto simp: islinebreak_def list_all_iff wellformed_cell_def)
  then show "\<not> list_ex islinebreak (render_row cells)"
    by (simp add: render_row_def islinebreak_def)
  show "strip (render_row cells) = render_row cells"
    unfolding strip_def by (rule trim_fix) (simp add: render_row_def isspace_def)
  show "startswith (render_row cells) ''|''" by (simp add: render_row_def startswith_def)
qed

lemma dict_set_fresh: "k \<notin> fst ` set d \<Longrightarrow> dict_set d k v = d @ [(k, v)]"
  by (induction d) auto

lemma foldl_dict_set_distinct:
  "distinct (map fst (d @ kvs)) \<Longrightarrow> foldl (\<lambda>d (k, v). dict_set d k v) d kvs = d @ kvs"
proof (induction kvs arbitrary: d)
  case Nil show ?case by simp
next
  case (Cons kv kvs)
  obtain k v where kv: "kv = (k, v)" by (cases kv)
  from Cons.prems have "k \<notin> fst ` set d" by (auto simp: kv)
  then have "dict_set d k v = d @ [(k, v)]" by (rule dict_set_fresh)
  then show ?case using Cons.IH [of "d @ [(k, v)]"] Cons.prems by (simp add: kv)
qed

lemma dict_distinct: "distinct (map fst kvs) \<Longrightarrow> dict kvs = kvs"
  using foldl_dict_set_distinct [of "[]" kvs] by (simp add: dict_def)

lemma keys_dict_set: "set (keys (dict_set d k v)) = insert k (set (keys d))"
  by (induction d k v rule: dict_set.induct) (auto simp: keys_def)

lemma keys_foldl_dict_set:
  "set (keys (foldl (\<lambda>d (k, v). dict_set d k v) d kvs)) = set (keys d) \<union> fst ` set kvs"
proof (induction kvs arbitrary: d)
  case Nil show ?case by simp
next
  case (Cons kv kvs)
  obtain k v where kv: "kv = (k, v)" by (cases kv)
  show ?case using Cons.IH [of "dict_set d k v"] by (auto simp: kv keys_dict_set)
qed

lemma keys_dict: "set (keys (dict kvs)) = fst ` set kvs"
  using keys_foldl_dict_set [of "[]" kvs] by (simp add: dict_def keys_def)

lemma rendered_table_parsed:
  assumes "H \<noteq> []" and "list_all wellformed_cell H"
    and "\<forall>r\<in>set rows. length r = length H \<and> list_all wellformed_cell r"
  shows "parse_markdown_table (render_table H rows) = map (\<lambda>r. dict (zip H r)) rows \<and>
         length (parse_markdown_table (render_table H rows)) = length rows \<and>
         (\<forall>rec\<in>set (parse_markdown_table (render_table H rows)). set (keys rec) = set H) \<and>
         (distinct H \<longrightarrow> parse_markdown_table (render_table H rows) = map (zip H) rows)"
proof -
  let ?sep = "map (\<lambda>h. ''---'') H"
  let ?L = "render_row H # render_row ?sep # map render_row rows"
  have sep: "list_all wellformed_cell ?sep"
    by (simp add: list_all_iff wellformed_cell_def islinebreak_def strip_def isspace_def)
  have wf: "\<exists>cells. l = render_row cells \<and> list_all wellformed_cell cells" if "l \<in> set ?L" for l
    using that assms(2,3) sep by auto
  have 0: "\<forall>l\<in>set ?L. l \<noteq> [] \<and> \<not> list_ex islinebreak l"
  proof
    fix l assume "l \<in> set ?L"
    then obtain cells where "l = render_row cells" "list_all wellformed_cell cells"
      using wf by blast
    then show "l \<noteq> [] \<and> \<not> list_ex islinebreak l"
      using render_row_line(1,2) [of cells] by simp
  qed
  have 1: "splitlines (render_table H rows) = ?L"
    unfolding render_table_def using 0 by (rule splitlines_join)
  have 2: "strip l = l \<and> startswith (strip l) ''|''" if "l \<in> set ?L" for l
  proof -
    from that obtain cells where "l = render_row cells" "list_all wellformed_cell cells"
      using wf by blast
    then show ?thesis using render_row_line(3,4) [of cells] by simp
  qed
  have "filter (\<lambda>l. startswith (strip l) ''|'') ?L = ?L"
    by (rule filter_True) (use 2 in blast)
  moreover have "map strip ?L = ?L"
    by (rule map_idI) (use 2 in blast)
  ultimately have lines: "table_lines (render_table H rows) = ?L"
    by (simp only: table_lines_def 1)
  have hs: "row_cells (render_row H) = H" using assms(1,2) by (rule row_cells_render)
  have body: "row_cells (render_row r) = r" if "r \<in> set rows" for r
  proof (rule row_cells_render)
    from that assms(3) have "length r = length H" by blast
    with assms(1) show "r \<noteq> []" by auto
    from that assms(3) show "list_all wellformed_cell r" by blast
  qed
  have len: "length r = length H" if "r \<in> set rows" for r
    using that assms(3) by blast
  have "parse_markdown_table (render_table H rows) =
          map (\<lambda>r. dict (zip H (row_cells r)))
            (filter (\<lambda>r. length (row_cells r) = length H) (map render_row rows))"
    by (simp add: parse_markdown_table_def lines hs table_rows_closed)
  also have "filter (\<lambda>r. length (row_cells r) = length H) (map render_row rows) = map render_row rows"
    by (rule filter_True) (auto simp: body len)
  also have "map (\<lambda>r. dict (zip H (row_cells r))) (map render_row rows) = map (\<lambda>r. dict (zip H r)) rows"
    unfolding map_map o_def by (rule map_cong [OF refl]) (simp add: body)
  finally have eq: "parse_markdown_table (render_table H rows) = map (\<lambda>r. dict (zip H r)) rows" .
  have k: "set (keys (dict (zip H r))) = set H" if "r \<in> set rows" for r
  proof -
    have "fst ` set (zip H r) = set (map fst (zip H r))" by simp
    also have "\<dots> = set H" using len [OF that] by (simp only: map_fst_zip)
    finally show ?thesis by (simp only: keys_dict)
  qed
  have d: "map (\<lambda>r. dict (zip H r)) rows = map (zip H) rows" if "distinct H"
  proof (rule map_cong [OF refl])
    fix r assume "r \<in> set rows"
    then have "map fst (zip H r) = H" using len by (simp only: map_fst_zip)
    with that show "dict (zip H r) = zip H r" by (intro dict_distinct) simp
  qed
  show ?thesis
  proof (intro conjI)
    show "parse_markdown_table (render_table H rows) = map (\<lambda>r. dict (zip H r)) rows" by (rule eq)
    show "length (parse_markdown_table (render_table H rows)) = length rows" by (simp only: eq length_map)
    show "\<forall>rec\<in>set (parse_markdown_table (render_table H rows)). set (keys rec) = set H"
      unfolding eq using k by auto
    show "distinct H \<longrightarrow> parse_markdown_table (render_table H rows) = map (zip H) rows"
      unfolding eq using d by blast
  qed
qed

text \<open>
  C2, as stated: for every header the records pair the names of the header with the cells of
  the row. A record is a dictionary: with the header \<^verbatim>\<open>a, a\<close> the row \<^verbatim>\<open>1, 2\<close> gives the one
  pair of \<^verbatim>\<open>a\<close> and \<^verbatim>\<open>2\<close>, and the cell \<^verbatim>\<open>1\<close> is lost. With the empty header a rendered
  line still has one empty cell, and the records have the empty name for key.
\<close>

theorem table_round_trip_counterexample:
  "parse_markdown_table (render_table [''a'', ''a''] [[''1'', ''2'']]) = [[(''a'', ''2'')]] \<and>
   parse_markdown_table (render_table [] [[], []]) = [[([], [])], [([], [])]]"
  by (simp add: render_table_def render_row_def parse_defs)

text \<open>
  C2, amended: for a header \<open>H\<close> of at least one column name, the names distinct and
  well-formed, and rows of \<open>length H\<close> well-formed cells each, parsing the rendered table gives
  one record per row, in the order of the rows; the keys of the record of a row are the names
  of \<open>H\<close> and its values are the cells of the row.
\<close>

theorem table_round_trip:
  assumes "H \<noteq> []" and "distinct H" and "list_all wellformed_cell H"
    and "\<forall>r\<in>set rows. length r = length H \<and> list_all wellformed_cell r"
  shows "parse_markdown_table (render_table H rows) = map (zip H) rows \<and>
         length (parse_markdown_table (render_table H rows)) = length rows \<and>
         (\<forall>i<length rows.
            keys (parse_markdown_table (render_table H rows) ! i) = H \<and>
            map snd (parse_markdown_table (render_table H rows) ! i) = rows ! i)"
proof -
  have eq: "parse_markdown_table (render_table H rows) = map (zip H) rows"
    using rendered_table_parsed [OF assms(1,3,4)] assms(2) by blast
  have "keys (zip H (rows ! i)) = H \<and> map snd (zip H (rows ! i)) = rows ! i" if "i < length rows" for i
  proof -
    from that assms(4) have "length (rows ! i) = length H" by simp
    then show ?thesis by (simp add: keys_def map_fst_zip map_snd_zip)
  qed
  then show ?thesis by (simp add: eq)
qed

theorem table_round_trip_witness:
  "parse_markdown_table (render_table [''a'', ''b''] [[''1'', ''2''], [[], ''x y'']]) =
     [[(''a'', ''1''), (''b'', ''2'')], [(''a'', []), (''b'', ''x y'')]] \<and>
   render_table [''a'', ''b''] [[''1'', ''2''], [[], ''x y'']] =
     ''| a | b |\<newline>| --- | --- |\<newline>| 1 | 2 |\<newline>|  | x y |''"
proof -
  have h1: "[''a'', ''b''] \<noteq> []" and h2: "distinct [''a'', ''b'']" by simp_all
  have h3: "list_all wellformed_cell [''a'', ''b'']"
    by (simp add: wellformed_cell_def text_defs)
  have h4: "\<forall>r\<in>set [[''1'', ''2''], [[], ''x y'']].
              length r = length [''a'', ''b''] \<and> list_all wellformed_cell r"
    by (simp add: wellformed_cell_def text_defs)
  from table_round_trip [OF h1 h2 h3 h4]
  have "parse_markdown_table (render_table [''a'', ''b''] [[''1'', ''2''], [[], ''x y'']]) =
          map (zip [''a'', ''b'']) [[''1'', ''2''], [[], ''x y'']]"
    by blast
  then show ?thesis by (simp add: render_table_def render_row_def)
qed

section \<open>The list parser\<close>

lemma in_splits: "(a, b) \<in> set (splits xs) \<longleftrightarrow> a @ b = xs"
proof
  assume "(a, b) \<in> set (splits xs)"
  then show "a @ b = xs" by (auto simp: splits_def)
next
  assume e: "a @ b = xs"
  have "(take (length a) xs, drop (length a) xs) \<in> set (splits xs)"
    unfolding splits_def set_map by (rule imageI) (use e in auto)
  with e show "(a, b) \<in> set (splits xs)" by auto
qed

lemma in_rests:
  "r \<in> set (map snd (filter (\<lambda>(a, b). P a b) (splits xs))) \<longleftrightarrow> (\<exists>a. xs = a @ r \<and> P a r)"
proof
  assume "r \<in> set (map snd (filter (\<lambda>(a, b). P a b) (splits xs)))"
  then obtain p where p: "p \<in> set (splits xs)" "case p of (a, b) \<Rightarrow> P a b" "r = snd p"
    by auto
  obtain a b where ab: "p = (a, b)" by (cases p)
  from p(1) have "a @ b = xs" unfolding ab by (simp only: in_splits)
  with p(2,3) show "\<exists>a. xs = a @ r \<and> P a r" unfolding ab by auto
next
  assume "\<exists>a. xs = a @ r \<and> P a r"
  then obtain a where a: "xs = a @ r" "P a r" by blast
  from a(1) have "(a, r) \<in> set (splits xs)" by (simp only: in_splits)
  with a(2) have "(a, r) \<in> set (filter (\<lambda>(a, b). P a b) (splits xs))" by simp
  then have "snd (a, r) \<in> snd ` set (filter (\<lambda>(a, b). P a b) (splits xs))" by (rule imageI)
  then show "r \<in> set (map snd (filter (\<lambda>(a, b). P a b) (splits xs)))" by simp
qed

lemma in_after_index:
  "r \<in> set (after_index line) \<longleftrightarrow>
     (\<exists>index. line = index @ r \<and> index \<noteq> [] \<and> list_all isdigit index)"
  unfolding after_index_def by (rule in_rests)

lemma in_after_dot: "r' \<in> set (after_dot r) \<longleftrightarrow> (\<exists>dot. r = dot @ r' \<and> (dot = [] \<or> dot = ''.''))"
  unfolding after_dot_def by (rule in_rests)

lemma in_after_space:
  "label \<in> set (after_space r) \<longleftrightarrow>
     (\<exists>ws. r = ws @ label \<and> ws \<noteq> [] \<and> list_all isspace ws \<and> label \<noteq> [])"
  unfolding after_space_def by (rule in_rests)

lemma in_after_indent:
  "r \<in> set (after_indent line) \<longleftrightarrow> (\<exists>ind. line = ind @ r \<and> list_all isspace ind)"
  unfolding after_indent_def by (rule in_rests)

lemma digit_not_space: "isdigit c \<Longrightarrow> \<not> isspace c"
  by (auto simp: isdigit_def isspace_def)

lemma dot_class: "\<not> isdigit CHR ''.''" "\<not> isspace CHR ''.''"
  by (simp_all add: isdigit_def isspace_def)

lemma strip_dropWhile: "strip (dropWhile isspace s) = strip s"
  by (simp add: strip_def)

lemma match_numbered_reading:
  assumes "list_all isspace ind" and "index \<noteq> []" and "list_all isdigit index"
    and "dot = [] \<or> dot = ''.''" and "ws \<noteq> []" and "list_all isspace ws" and "label \<noteq> []"
  shows "\<exists>g. match_numbered (ind @ index @ dot @ ws @ label) = Some g \<and> strip g = strip label"
proof -
  let ?tail = "dot @ ws @ label"
  let ?rest = "index @ ?tail"
  obtain d dt where index: "index = d # dt" using assms(2) by (cases index) auto
  then have "isdigit d" using assms(3) by simp
  then have d: "\<not> isspace d" by (rule digit_not_space)
  obtain w wt where ws: "ws = w # wt" using assms(5) by (cases ws) auto
  then have w: "isspace w" using assms(6) by simp
  then have wd: "\<not> isdigit w" using digit_not_space by blast
  have wdot: "w \<noteq> CHR ''.''" using w dot_class(2) by blast
  have "dropWhile isspace (ind @ ?rest) = dropWhile isspace ?rest"
    by (rule dropWhile_append2) (use assms(1) in \<open>simp add: list_all_iff\<close>)
  also have "\<dots> = ?rest" using d by (simp add: index)
  finally have s1: "dropWhile isspace (ind @ index @ dot @ ws @ label) = ?rest" .
  have t0: "takeWhile isdigit ?tail = [] \<and> dropWhile isdigit ?tail = ?tail"
    using assms(4) wd dot_class(1) by (auto simp: ws)
  have "takeWhile isdigit ?rest = index @ takeWhile isdigit ?tail"
    by (rule takeWhile_append2) (use assms(3) in \<open>simp add: list_all_iff\<close>)
  then have ds: "takeWhile isdigit ?rest = index" using t0 by simp
  have "dropWhile isdigit ?rest = dropWhile isdigit ?tail"
    by (rule dropWhile_append2) (use assms(3) in \<open>simp add: list_all_iff\<close>)
  then have s2: "dropWhile isdigit ?rest = ?tail" using t0 by simp
  have s3: "(case ?tail of [] \<Rightarrow> ?tail | c # cs \<Rightarrow> if c = CHR ''.'' then cs else ?tail) = ws @ label"
    using assms(4) wdot by (auto simp: ws)
  have tw: "takeWhile isspace (ws @ label) = ws @ takeWhile isspace label"
    by (rule takeWhile_append2) (use assms(6) in \<open>simp add: list_all_iff\<close>)
  have dw: "dropWhile isspace (ws @ label) = dropWhile isspace label"
    by (rule dropWhile_append2) (use assms(6) in \<open>simp add: list_all_iff\<close>)
  have m: "match_numbered (ind @ index @ dot @ ws @ label) =
          (if index = [] \<or> ws @ takeWhile isspace label = [] then None
           else if dropWhile isspace label \<noteq> [] then Some (dropWhile isspace label)
           else if 2 \<le> length (ws @ takeWhile isspace label)
             then Some [last (ws @ takeWhile isspace label)]
           else None)"
    unfolding match_numbered_def Let_def s1 ds s2 s3 tw dw ..
  show ?thesis
  proof (cases "dropWhile isspace label = []")
    case False
    with m assms(2,5) have "match_numbered (ind @ index @ dot @ ws @ label) = Some (dropWhile isspace label)"
      by simp
    then show ?thesis by (simp add: strip_dropWhile)
  next
    case True
    then have all: "\<forall>c\<in>set label. isspace c" by (simp only: dropWhile_eq_Nil_conv)
    then have "takeWhile isspace label = label" by (simp add: takeWhile_eq_all_conv)
    with m True assms(2,5,7) have g: "match_numbered (ind @ index @ dot @ ws @ label) = Some [last label]"
      by (cases label) (simp_all add: ws)
    have "isspace (last label)" using all assms(7) by simp
    then have "strip [last label] = []" by (simp add: strip_def)
    moreover have "strip label = []" using all by (simp only: strip_empty_iff)
    ultimately show ?thesis using g by simp
  qed
qed

lemma match_numbered_Some:
  assumes "match_numbered line = Some g"
  shows "\<exists>ind index dot ws label. line = ind @ index @ dot @ ws @ label \<and>
           list_all isspace ind \<and> index \<noteq> [] \<and> list_all isdigit index \<and>
           (dot = [] \<or> dot = ''.'') \<and> ws \<noteq> [] \<and> list_all isspace ws \<and> label \<noteq> [] \<and>
           strip label = strip g"
proof -
  define ind where "ind = takeWhile isspace line"
  define s1 where "s1 = dropWhile isspace line"
  define ds where "ds = takeWhile isdigit s1"
  define s2 where "s2 = dropWhile isdigit s1"
  define s3 where "s3 = (case s2 of [] \<Rightarrow> s2 | c # cs \<Rightarrow> if c = CHR ''.'' then cs else s2)"
  define dot where "dot = (case s2 of [] \<Rightarrow> [] | c # cs \<Rightarrow> if c = CHR ''.'' then ''.'' else [])"
  define ws where "ws = takeWhile isspace s3"
  define s4 where "s4 = dropWhile isspace s3"
  have m: "match_numbered line =
             (if ds = [] \<or> ws = [] then None else if s4 \<noteq> [] then Some s4
              else if 2 \<le> length ws then Some [last ws] else None)"
    unfolding match_numbered_def Let_def s1_def ds_def s2_def s3_def ws_def s4_def ..
  have l1: "line = ind @ s1" by (simp add: ind_def s1_def)
  have l2: "s1 = ds @ s2" by (simp add: ds_def s2_def)
  have l3: "s2 = dot @ s3" by (cases s2) (simp_all add: dot_def s3_def)
  have l4: "s3 = ws @ s4" by (simp add: ws_def s4_def)
  have dot: "dot = [] \<or> dot = ''.''" by (cases s2) (simp_all add: dot_def)
  have ind: "list_all isspace ind" by (auto simp: ind_def list_all_iff dest: set_takeWhileD)
  have dsd: "list_all isdigit ds" by (auto simp: ds_def list_all_iff dest: set_takeWhileD)
  have wss: "list_all isspace ws" by (auto simp: ws_def list_all_iff dest: set_takeWhileD)
  from assms m have ne: "ds \<noteq> []" "ws \<noteq> []" by (auto split: if_splits)
  show ?thesis
  proof (cases "s4 = []")
    case False
    with assms m ne have "g = s4" by simp
    moreover have "line = ind @ ds @ dot @ ws @ s4" using l1 l2 l3 l4 by simp
    ultimately show ?thesis using ind ne dsd dot wss False by blast
  next
    case True
    with assms m ne have len: "2 \<le> length ws" and g: "g = [last ws]" by (auto split: if_splits)
    have w: "ws = butlast ws @ [last ws]" using ne(2) by simp
    have b: "butlast ws \<noteq> []" using len by (cases ws) (auto split: if_splits)
    have bs: "list_all isspace (butlast ws)"
      using wss by (auto simp: list_all_iff dest: in_set_butlastD)
    have "s3 = butlast ws @ [last ws]" using l4 True w by simp
    then have "line = ind @ ds @ dot @ butlast ws @ [last ws]" using l1 l2 l3 by simp
    moreover have "[last ws] \<noteq> []" by simp
    ultimately show ?thesis using ind ne(1) dsd dot b bs g by blast
  qed
qed

lemma in_numbered_labels:
  "l \<in> set (numbered_labels body) \<longleftrightarrow>
     (\<exists>index dot ws label. body = index @ dot @ ws @ label \<and> index \<noteq> [] \<and>
        list_all isdigit index \<and> (dot = [] \<or> dot = ''.'') \<and> ws \<noteq> [] \<and> list_all isspace ws \<and>
        label \<noteq> [] \<and> l = strip label)"
  (is "?L \<longleftrightarrow> ?R")
proof
  assume ?L
  then obtain label r2 r1 where "l = strip label" "label \<in> set (after_space r2)"
    "r2 \<in> set (after_dot r1)" "r1 \<in> set (after_index body)"
    unfolding numbered_labels_def by auto
  then show ?R unfolding in_after_space in_after_dot in_after_index by blast
next
  assume ?R
  then obtain index dot ws label where d: "body = index @ (dot @ ws @ label)" "index \<noteq> []"
    "list_all isdigit index" "dot = [] \<or> dot = ''.''" "ws \<noteq> []" "list_all isspace ws"
    "label \<noteq> []" "l = strip label" by auto
  have 1: "dot @ ws @ label \<in> set (after_index body)"
    unfolding in_after_index using d(1,2,3) by blast
  have 2: "ws @ label \<in> set (after_dot (dot @ ws @ label))"
    unfolding in_after_dot using d(4) by blast
  have 3: "label \<in> set (after_space (ws @ label))"
    unfolding in_after_space using d(5,6,7) by blast
  show ?L unfolding numbered_labels_def using 1 2 3 d(8) by auto
qed

lemma in_indented_labels:
  "l \<in> set (indented_labels line) \<longleftrightarrow>
     (\<exists>ind index dot ws label. line = ind @ index @ dot @ ws @ label \<and> list_all isspace ind \<and>
        index \<noteq> [] \<and> list_all isdigit index \<and> (dot = [] \<or> dot = ''.'') \<and> ws \<noteq> [] \<and>
        list_all isspace ws \<and> label \<noteq> [] \<and> l = strip label)"
  (is "?L \<longleftrightarrow> ?R")
proof
  assume ?L
  then obtain body where "body \<in> set (after_indent line)" "l \<in> set (numbered_labels body)"
    unfolding indented_labels_def by auto
  then show ?R unfolding in_after_indent in_numbered_labels by blast
next
  assume ?R
  then obtain ind index dot ws label where d: "line = ind @ (index @ dot @ ws @ label)"
    "list_all isspace ind" and r: "index \<noteq> []" "list_all isdigit index" "dot = [] \<or> dot = ''.''"
    "ws \<noteq> []" "list_all isspace ws" "label \<noteq> []" "l = strip label" by blast
  have 1: "index @ dot @ ws @ label \<in> set (after_indent line)"
    unfolding in_after_indent using d by blast
  have 2: "l \<in> set (numbered_labels (index @ dot @ ws @ label))"
    unfolding in_numbered_labels using r by blast
  show ?L unfolding indented_labels_def using 1 2 by auto
qed

lemma indented_labels_set:
  "set (indented_labels line) = (case match_numbered line of None \<Rightarrow> {} | Some g \<Rightarrow> {strip g})"
proof (cases "match_numbered line")
  case None
  have "l \<notin> set (indented_labels line)" for l
  proof
    assume "l \<in> set (indented_labels line)"
    then obtain ind index dot ws label where "line = ind @ index @ dot @ ws @ label"
      "list_all isspace ind" "index \<noteq> []" "list_all isdigit index" "dot = [] \<or> dot = ''.''"
      "ws \<noteq> []" "list_all isspace ws" "label \<noteq> []"
      unfolding in_indented_labels by blast
    then show False using match_numbered_reading [of ind index dot ws label] None by simp
  qed
  note no = this
  have "indented_labels line = []"
  proof (cases "indented_labels line")
    case Nil then show ?thesis .
  next
    case (Cons x xs)
    then have "x \<in> set (indented_labels line)" by simp
    with no show ?thesis by blast
  qed
  with None show ?thesis by simp
next
  case (Some g)
  have "l \<in> set (indented_labels line) \<longleftrightarrow> l = strip g" for l
  proof
    assume "l \<in> set (indented_labels line)"
    then obtain ind index dot ws label where "line = ind @ index @ dot @ ws @ label"
      "list_all isspace ind" "index \<noteq> []" "list_all isdigit index" "dot = [] \<or> dot = ''.''"
      "ws \<noteq> []" "list_all isspace ws" "label \<noteq> []" "l = strip label"
      unfolding in_indented_labels by blast
    then show "l = strip g" using match_numbered_reading [of ind index dot ws label] Some by simp
  next
    assume "l = strip g"
    then show "l \<in> set (indented_labels line)"
      unfolding in_indented_labels using match_numbered_Some [OF Some] by metis
  qed
  with Some show ?thesis by auto
qed

lemma remdups_single: "set xs = {a} \<Longrightarrow> remdups xs = [a]"
proof -
  assume s: "set xs = {a}"
  define ys where "ys = remdups xs"
  have d: "distinct ys" and t: "set ys = {a}" using s by (simp_all add: ys_def)
  then obtain y yt where y: "ys = y # yt" by (cases ys) auto
  with t have "y = a" "set yt \<subseteq> {a}" by auto
  moreover from d y have "y \<notin> set yt" by simp
  ultimately have "yt = []" by (cases yt) auto
  with y \<open>y = a\<close> show ?thesis by (simp add: ys_def)
qed

lemma remdups_indented_labels:
  "remdups (indented_labels line) = (case match_numbered line of None \<Rightarrow> [] | Some g \<Rightarrow> [strip g])"
  using indented_labels_set [of line] by (auto split: option.splits intro: remdups_single)

lemma numbered_items_closed:
  "numbered_items lines items =
     items @ concat (map (\<lambda>l. case match_numbered l of None \<Rightarrow> [] | Some g \<Rightarrow> [strip g]) lines)"
  by (induction lines arbitrary: items) (simp_all split: option.splits)

lemmas list_defs = parse_numbered_list_def match_numbered_def isdigit_def text_defs

text \<open>
  C5, as stated: the output holds the trimmed labels of the lines made of an index, an optional
  dot, whitespace and a label, and every other line is ignored. The pattern of the code begins
  with \<^verbatim>\<open>^\s*\<close>: a line with whitespace before its index is no such line, and its label is in
  the output all the same.
\<close>

theorem numbered_list_counterexample:
  "parse_numbered_list '' 1. A'' = [''A''] \<and> listed numbered_labels '' 1. A'' = []"
proof -
  have "parse_numbered_list '' 1. A'' = [''A'']"
    by (simp add: list_defs)
  moreover have "listed numbered_labels '' 1. A'' = []"
    by code_simp
  ultimately show ?thesis by simp
qed

text \<open>
  C5, amended: the output is the sequence, in the order of the lines, of the trimmed labels of
  the lines made of optional whitespace, an index of one or more digits, an optional dot,
  whitespace and a label that is not empty; every other line is ignored. Nothing is removed
  from that sequence, so a label that occurs on two lines occurs twice, and the empty text
  gives the empty sequence.
\<close>

theorem numbered_list_lines:
  "parse_numbered_list text = listed indented_labels text"
  by (simp add: parse_numbered_list_def listed_def numbered_items_closed remdups_indented_labels)

theorem numbered_list_lines_witness:
  "parse_numbered_list ''1. Alice\<newline>2 Bob\<newline>NotANumber\<newline>3. Carol'' = [''Alice'', ''Bob'', ''Carol''] \<and>
   listed indented_labels ''1. Alice\<newline>2 Bob\<newline>NotANumber\<newline>3. Carol'' = [''Alice'', ''Bob'', ''Carol''] \<and>
   listed indented_labels ''  1. Ann\<newline>2. Ann'' = [''Ann'', ''Ann''] \<and>
   listed indented_labels [] = []"
proof -
  have 1: "parse_numbered_list ''1. Alice\<newline>2 Bob\<newline>NotANumber\<newline>3. Carol'' = [''Alice'', ''Bob'', ''Carol'']"
    by (simp add: list_defs)
  have 2: "parse_numbered_list ''  1. Ann\<newline>2. Ann'' = [''Ann'', ''Ann'']"
    by (simp add: list_defs)
  have 3: "parse_numbered_list [] = []"
    by (simp add: list_defs)
  show ?thesis
    using 1 2 3
      numbered_list_lines [of "''1. Alice\<newline>2 Bob\<newline>NotANumber\<newline>3. Carol''"]
      numbered_list_lines [of "''  1. Ann\<newline>2. Ann''"] numbered_list_lines [of "[]"]
    by simp
qed

section \<open>The loop over the participants\<close>

lemma step_skipped:
  assumes "client e (length (calls w)) (get_bpmn_prompt p sop_text) = Inr reply"
    and "parse_markdown_table (strip reply) = []"
  shows "bpmn_loop e sop_text output_dir (p # ps) bpmn_tables w =
           bpmn_loop e sop_text output_dir ps bpmn_tables (skipped sop_text p (strip reply) w)"
  unfolding skipped_def using assms by (rule bpmn_loop_skipped)

lemma step_written:
  assumes "client e (length (calls w)) (get_bpmn_prompt p sop_text) = Inr reply"
    and "accepted e output_dir p (strip reply)"
  shows "bpmn_loop e sop_text output_dir (p # ps) bpmn_tables w =
           bpmn_loop e sop_text output_dir ps (dict_set bpmn_tables p (strip reply))
             (written sop_text output_dir p (strip reply) w)"
  unfolding written_def using assms(2)
  by (intro bpmn_loop_written [OF assms(1)]) (simp_all add: accepted_def list_all_iff)

lemma calls_after [simp]:
  "length (calls (skipped sop_text p md w)) = Suc (length (calls w))"
  "length (calls (written sop_text output_dir p md w)) = Suc (length (calls w))"
  by (simp_all add: skipped_def written_def)



lemma map_of_dict_set: "map_of (dict_set d k v) k = Some v"
  by (induction d k v rule: dict_set.induct) auto



lemma second_table_parsed:
  "strip second_table = second_table"
  "parse_markdown_table second_table = [[(''Object Type'', ''Task''), (''Object Name'', ''Ship'')]]"
  by (simp_all add: second_table_def parse_defs)

lemma out_path_A: "out_path ''out'' ''A'' = ''out/A_bpmn.csv''"
  by (simp add: out_path_def path_join_def startswith_def class_defs)

lemma sample_accepted:
  "writable e (out_path output_dir p) \<Longrightarrow> accepted e output_dir p sample_table"
  "writable e (out_path output_dir p) \<Longrightarrow> accepted e output_dir p second_table"
  by (simp_all add: accepted_def sample_table_parsed second_table_parsed keys_def headers_def)

section \<open>A column that is no field name\<close>

lemma writerows_bad:
  "\<exists>r\<in>set rows. \<not> set (keys r) \<subseteq> set hs \<Longrightarrow>
   writerows hs rows acc =
     (Some ValueError,
      acc @ map (\<lambda>r. map (\<lambda>k. dict_get r k []) hs) (takeWhile (\<lambda>r. set (keys r) \<subseteq> set hs) rows))"
  by (induction rows arbitrary: acc) auto

lemma parse_keys:
  assumes "r \<in> set (parse_markdown_table md)"
  shows "set (keys r) = set (row_cells (table_lines md ! 0))"
proof -
  let ?hs = "row_cells (table_lines md ! 0)"
  from assms have "r \<in> set (table_rows ?hs (drop 2 (table_lines md)) [])"
    by (auto simp: parse_markdown_table_def Let_def split: if_splits)
  then obtain cells where "r = dict (zip ?hs cells)" "length cells = length ?hs"
    unfolding table_rows_closed by auto
  then have "set (keys r) = set (map fst (zip ?hs cells))" by (simp only: keys_dict set_map)
  also have "\<dots> = set ?hs" using \<open>length cells = length ?hs\<close> by (simp only: map_fst_zip)
  finally show ?thesis .
qed

lemma bad_header_raises:
  assumes "client e (length (calls w)) (get_bpmn_prompt p sop_text) = Inr reply"
    and "parse_markdown_table (strip reply) \<noteq> []"
    and "\<not> set (row_cells (table_lines (strip reply) ! 0)) \<subseteq> set headers"
  shows "bpmn_loop e sop_text output_dir (p # ps) bpmn_tables w =
           (if writable e (out_path output_dir p)
            then (Inl ValueError,
                  \<lparr>calls = calls w @ [get_bpmn_prompt p sop_text],
                   files = (files w)(out_path output_dir p \<mapsto> [headers]),
                   printed = printed w @ [Generating_BPMN p]\<rparr>)
            else (Inl OSError,
                  \<lparr>calls = calls w @ [get_bpmn_prompt p sop_text], files = files w,
                   printed = printed w @ [Generating_BPMN p]\<rparr>))"
proof -
  obtain r rs where rows: "parse_markdown_table (strip reply) = r # rs"
    using assms(2) by (cases "parse_markdown_table (strip reply)") auto
  then have "set (keys r) = set (row_cells (table_lines (strip reply) ! 0))"
    by (intro parse_keys) simp
  with assms(3) have bad: "\<not> set (keys r) \<subseteq> set headers" by simp
  then have "writerows headers (r # rs) [headers] = (Some ValueError, [headers])" by simp
  then show ?thesis
    using assms(1) by (cases w) (simp add: call_gpt_def say_def write_csv_def rows Let_def)
qed

lemma calls_write_csv: "calls (snd (write_csv e rows hs path w)) = calls w"
  by (simp add: write_csv_def split: prod.splits option.splits)

lemma bpmn_loop_step_cases:
  "(\<exists>err w1. bpmn_loop e sop_text output_dir (p # ps) bpmn_tables w = (Inl err, w1)) \<or>
   (\<exists>t1 w1. bpmn_loop e sop_text output_dir (p # ps) bpmn_tables w =
              bpmn_loop e sop_text output_dir ps t1 w1 \<and>
            length (calls w1) = Suc (length (calls w)))"
proof (cases "client e (length (calls w)) (get_bpmn_prompt p sop_text)")
  case (Inl err)
  then show ?thesis using bpmn_loop_raised [OF Inl] by blast
next
  case (Inr reply)
  show ?thesis
  proof (cases "parse_markdown_table (strip reply) = []")
    case True
    have "length (calls (skipped sop_text p (strip reply) w)) = Suc (length (calls w))" by simp
    then show ?thesis using step_skipped [OF Inr True] by blast
  next
    case False
    define w1 where "w1 = \<lparr>calls = calls w @ [get_bpmn_prompt p sop_text], files = files w,
                             printed = printed w @ [Generating_BPMN p]\<rparr>"
    obtain res w2 where wr: "write_csv e (parse_markdown_table (strip reply)) headers
                               (out_path output_dir p) w1 = (res, w2)"
      by (cases "write_csv e (parse_markdown_table (strip reply)) headers (out_path output_dir p) w1")
    have c: "length (calls w2) = Suc (length (calls w))"
      using calls_write_csv [of e "parse_markdown_table (strip reply)" headers
          "out_path output_dir p" w1] wr by (simp add: w1_def)
    have step: "bpmn_loop e sop_text output_dir (p # ps) bpmn_tables w =
        (case res of Inl err \<Rightarrow> (Inl err, w2)
         | Inr u \<Rightarrow> bpmn_loop e sop_text output_dir ps (dict_set bpmn_tables p (strip reply))
             (say (Rows_Written (length (parse_markdown_table (strip reply))) (out_path output_dir p)) w2))"
      using Inr False wr by (cases w) (simp add: call_gpt_def say_def Let_def w1_def)
    show ?thesis
    proof (cases res)
      case (Inl err)
      with step show ?thesis by simp
    next
      case (Inr u)
      have "length (calls (say (Rows_Written (length (parse_markdown_table (strip reply)))
                (out_path output_dir p)) w2)) = Suc (length (calls w))"
        using c by (simp add: say_def)
      with step Inr show ?thesis by (simp only: sum.case) blast
    qed
  qed
qed

lemma bpmn_loop_bad_reply:
  assumes "i < length ps"
    and "client e (length (calls w) + i) (get_bpmn_prompt (ps ! i) sop_text) = Inr reply"
    and "parse_markdown_table (strip reply) \<noteq> []"
    and "\<not> set (row_cells (table_lines (strip reply) ! 0)) \<subseteq> set headers"
  shows "\<exists>err w'. bpmn_loop e sop_text output_dir ps bpmn_tables w = (Inl err, w')"
  using assms(1,2)
proof (induction ps arbitrary: i bpmn_tables w)
  case Nil then show ?case by simp
next
  case (Cons p ps)
  show ?case
  proof (cases i)
    case 0
    with Cons.prems have "client e (length (calls w)) (get_bpmn_prompt p sop_text) = Inr reply"
      by simp
    from bad_header_raises [OF this assms(3,4)] show ?thesis by (simp del: bpmn_loop.simps)
  next
    case (Suc j)
    consider (raised) err w1 where
        "bpmn_loop e sop_text output_dir (p # ps) bpmn_tables w = (Inl err, w1)"
      | (continued) t1 w1 where
        "bpmn_loop e sop_text output_dir (p # ps) bpmn_tables w =
           bpmn_loop e sop_text output_dir ps t1 w1"
        "length (calls w1) = Suc (length (calls w))"
      using bpmn_loop_step_cases [of e sop_text output_dir p ps bpmn_tables w] by blast
    then show ?thesis
    proof cases
      case raised then show ?thesis by blast
    next
      case continued
      have "j < length ps" using Cons.prems(1) Suc by simp
      moreover have "client e (length (calls w1) + j) (get_bpmn_prompt (ps ! j) sop_text) = Inr reply"
        using Cons.prems(2) Suc continued(2) by simp
      ultimately have "\<exists>err w'. bpmn_loop e sop_text output_dir ps t1 w1 = (Inl err, w')"
        by (rule Cons.IH)
      with continued(1) show ?thesis by (simp only:)
    qed
  qed
qed

lemma three_participants: "parse_numbered_list ''1. A\<newline>2. B\<newline>3. C'' = [''A'', ''B'', ''C'']"
  "strip ''1. A\<newline>2. B\<newline>3. C'' = ''1. A\<newline>2. B\<newline>3. C''" "strip ''doc'' = ''doc''"
  by (simp_all add: list_defs)

lemma out_path_B: "out_path ''out'' ''B'' = ''out/B_bpmn.csv''"
  by (simp add: out_path_def path_join_def startswith_def class_defs)

lemma out_path_C: "out_path ''out'' ''C'' = ''out/C_bpmn.csv''"
  by (simp add: out_path_def path_join_def startswith_def class_defs)

lemma main_stage2:
  assumes "pdf_text e pdf_path = Inr sop_text" and "strip sop_text \<noteq> []"
    and "client e (length (calls w)) (get_participants_prompt sop_text) = Inr resp"
    and "parse_numbered_list (strip resp) \<noteq> []"
    and "bpmn_loop e sop_text output_dir (parse_numbered_list (strip resp)) []
           \<lparr>calls = calls w @ [get_participants_prompt sop_text], files = files w,
            printed = printed w @ [Reading_PDF pdf_path, Identifying_Participants,
                        Found_Participants (parse_numbered_list (strip resp))]\<rparr> = (res, w2)"
  shows "main e pdf_path output_dir w =
           (case res of
              Inl err \<Rightarrow> (Some err, w2)
            | Inr bpmn_tables \<Rightarrow>
                if bpmn_tables \<noteq> [] then
                  (case message_flows e output_dir bpmn_tables w2 of
                     (Some err, w3) \<Rightarrow> (Some err, w3)
                   | (None, w3) \<Rightarrow> (None, say All_Done w3))
                else (None, say All_Done w2))"
  using assms by (cases w) (simp add: main_def call_gpt_def say_def Let_def split: sum.splits)

text \<open>
  C9. When a record holds a key that is not in the header, \<^verbatim>\<open>write_csv\<close> raises: with a path
  that can be written the file holds the header and the records before the first such record,
  and the \<^verbatim>\<open>ValueError\<close> of the writer leaves the function. In the loop, a reply that parses
  to at least one record and whose header line holds a column that is none of the seven of
  \<open>headers\<close> raises at the first record; the participant is not skipped, no later participant
  is asked, and whatever the place of the participant in the list, \<^verbatim>\<open>main\<close> ends with an
  exception.
\<close>

theorem extra_column_aborts:
  "((\<exists>r\<in>set rows. \<not> set (keys r) \<subseteq> set hs) \<longrightarrow>
      write_csv e rows hs path w =
        (if writable e path
         then (Inl ValueError,
               \<lparr>calls = calls w,
                files = (files w)(path \<mapsto>
                          csv_records hs (takeWhile (\<lambda>r. set (keys r) \<subseteq> set hs) rows)),
                printed = printed w\<rparr>)
         else (Inl OSError, w))) \<and>
   (client e (length (calls w)) (get_bpmn_prompt p sop_text) = Inr reply \<and>
    parse_markdown_table (strip reply) \<noteq> [] \<and>
    \<not> set (row_cells (table_lines (strip reply) ! 0)) \<subseteq> set headers \<longrightarrow>
      bpmn_loop e sop_text output_dir (p # ps) bpmn_tables w =
        (if writable e (out_path output_dir p)
         then (Inl ValueError,
               \<lparr>calls = calls w @ [get_bpmn_prompt p sop_text],
                files = (files w)(out_path output_dir p \<mapsto> [headers]),
                printed = printed w @ [Generating_BPMN p]\<rparr>)
         else (Inl OSError,
               \<lparr>calls = calls w @ [get_bpmn_prompt p sop_text], files = files w,
                printed = printed w @ [Generating_BPMN p]\<rparr>))) \<and>
   (pdf_text e pdf_path = Inr sop_text \<and> strip sop_text \<noteq> [] \<and>
    client e (length (calls w)) (get_participants_prompt sop_text) = Inr resp \<and>
    i < length (parse_numbered_list (strip resp)) \<and>
    client e (Suc (length (calls w)) + i)
      (get_bpmn_prompt (parse_numbered_list (strip resp) ! i) sop_text) = Inr reply \<and>
    parse_markdown_table (strip reply) \<noteq> [] \<and>
    \<not> set (row_cells (table_lines (strip reply) ! 0)) \<subseteq> set headers \<longrightarrow>
      (\<exists>err w'. main e pdf_path output_dir w = (Some err, w')))"
proof (intro conjI impI; (elim conjE)?)
  assume "\<exists>r\<in>set rows. \<not> set (keys r) \<subseteq> set hs"
  then show "write_csv e rows hs path w =
        (if writable e path
         then (Inl ValueError,
               \<lparr>calls = calls w,
                files = (files w)(path \<mapsto>
                          csv_records hs (takeWhile (\<lambda>r. set (keys r) \<subseteq> set hs) rows)),
                printed = printed w\<rparr>)
         else (Inl OSError, w))"
    by (cases w) (simp add: write_csv_def writerows_bad csv_records_def)
next
  assume "client e (length (calls w)) (get_bpmn_prompt p sop_text) = Inr reply"
    "parse_markdown_table (strip reply) \<noteq> []"
    "\<not> set (row_cells (table_lines (strip reply) ! 0)) \<subseteq> set headers"
  then show "bpmn_loop e sop_text output_dir (p # ps) bpmn_tables w =
        (if writable e (out_path output_dir p)
         then (Inl ValueError,
               \<lparr>calls = calls w @ [get_bpmn_prompt p sop_text],
                files = (files w)(out_path output_dir p \<mapsto> [headers]),
                printed = printed w @ [Generating_BPMN p]\<rparr>)
         else (Inl OSError,
               \<lparr>calls = calls w @ [get_bpmn_prompt p sop_text], files = files w,
                printed = printed w @ [Generating_BPMN p]\<rparr>))"
    by (rule bad_header_raises)
next
  let ?ps = "parse_numbered_list (strip resp)"
  let ?w1 = "\<lparr>calls = calls w @ [get_participants_prompt sop_text], files = files w,
              printed = printed w @ [Reading_PDF pdf_path, Identifying_Participants,
                          Found_Participants ?ps]\<rparr>"
  assume a: "pdf_text e pdf_path = Inr sop_text" "strip sop_text \<noteq> []"
    "client e (length (calls w)) (get_participants_prompt sop_text) = Inr resp"
    "i < length ?ps"
    "client e (Suc (length (calls w)) + i) (get_bpmn_prompt (?ps ! i) sop_text) = Inr reply"
    "parse_markdown_table (strip reply) \<noteq> []"
    "\<not> set (row_cells (table_lines (strip reply) ! 0)) \<subseteq> set headers"
  have "client e (length (calls ?w1) + i) (get_bpmn_prompt (?ps ! i) sop_text) = Inr reply"
    using a(5) by simp
  from bpmn_loop_bad_reply [OF a(4) this a(6,7)]
  obtain err w' where l: "bpmn_loop e sop_text output_dir ?ps [] ?w1 = (Inl err, w')" by blast
  have "?ps \<noteq> []" using a(4) by auto
  from main_stage2 [OF a(1,2,3) this l]
  show "\<exists>err w'. main e pdf_path output_dir w = (Some err, w')" by simp
qed

lemma extra_table_parsed:
  "strip extra_table = extra_table"
  "parse_markdown_table extra_table = [[(''Object Type'', ''Task''), (''Owner'', ''Bob'')]]"
  by (simp_all add: extra_table_def parse_defs)

theorem extra_column_aborts_witness:
  "main extra_env ''sop.pdf'' ''out'' world0 =
     (Some ValueError,
      \<lparr>calls = [get_participants_prompt ''doc'', get_bpmn_prompt ''A'' ''doc'',
                get_bpmn_prompt ''B'' ''doc''],
       files = [''out/A_bpmn.csv'' \<mapsto> [headers, [''Task'', ''Pay'', [], [], [], [], []]],
                ''out/B_bpmn.csv'' \<mapsto> [headers]],
       printed = [Reading_PDF ''sop.pdf'', Identifying_Participants,
                  Found_Participants [''A'', ''B'', ''C''], Generating_BPMN ''A'',
                  Rows_Written 1 ''out/A_bpmn.csv'', Generating_BPMN ''B'']\<rparr>) \<and>
   write_csv extra_env (parse_markdown_table extra_table) headers ''out/f.csv'' world0 =
     (Inl ValueError, \<lparr>calls = [], files = [''out/f.csv'' \<mapsto> [headers]], printed = []\<rparr>)"
proof -
  have m: "main extra_env ''sop.pdf'' ''out'' world0 =
     (Some ValueError,
      \<lparr>calls = [get_participants_prompt ''doc'', get_bpmn_prompt ''A'' ''doc'',
                get_bpmn_prompt ''B'' ''doc''],
       files = [''out/A_bpmn.csv'' \<mapsto> [headers, [''Task'', ''Pay'', [], [], [], [], []]],
                ''out/B_bpmn.csv'' \<mapsto> [headers]],
       printed = [Reading_PDF ''sop.pdf'', Identifying_Participants,
                  Found_Participants [''A'', ''B'', ''C''], Generating_BPMN ''A'',
                  Rows_Written 1 ''out/A_bpmn.csv'', Generating_BPMN ''B'']\<rparr>)"
    by (simp add: main_def extra_env_def world0_def call_gpt_def say_def three_participants
        sample_table_parsed extra_table_parsed write_csv_def keys_def headers_def out_path_A
        out_path_B dict_get_def Let_def)
  have bad: "\<exists>r\<in>set (parse_markdown_table extra_table). \<not> set (keys r) \<subseteq> set headers"
    by (simp add: extra_table_parsed keys_def headers_def)
  have "writable extra_env ''out/f.csv''" by (simp add: extra_env_def)
  with extra_column_aborts [of "parse_markdown_table extra_table" headers extra_env "''out/f.csv''" world0]
    bad
  have "write_csv extra_env (parse_markdown_table extra_table) headers ''out/f.csv'' world0 =
     (Inl ValueError,
      \<lparr>calls = calls world0,
       files = (files world0)(''out/f.csv'' \<mapsto> csv_records headers
                  (takeWhile (\<lambda>r. set (keys r) \<subseteq> set headers) (parse_markdown_table extra_table))),
       printed = printed world0\<rparr>)"
    by simp
  then have "write_csv extra_env (parse_markdown_table extra_table) headers ''out/f.csv'' world0 =
     (Inl ValueError, \<lparr>calls = [], files = [''out/f.csv'' \<mapsto> [headers]], printed = []\<rparr>)"
    by (simp add: world0_def extra_table_parsed keys_def headers_def csv_records_def)
  with m show ?thesis by simp
qed

section \<open>One failing participant of three\<close>

lemma values_dict_set: "snd ` set (dict_set d k v) \<subseteq> insert v (snd ` set d)"
  by (induction d k v rule: dict_set.induct) auto

lemma not_retained:
  assumes "parse_markdown_table md = []" and "accepted e output_dir p a" and "accepted e output_dir' q b"
  shows "md \<notin> snd ` set (dict_set [(p, a)] q b)"
proof -
  have "md \<noteq> a" "md \<noteq> b" using assms by (auto simp: accepted_def)
  then show ?thesis using values_dict_set [of "[(p, a)]" q b] by auto
qed

lemma refusal_parsed:
  "strip ''I cannot help with that.'' = ''I cannot help with that.''"
  "parse_markdown_table ''I cannot help with that.'' = []"
  "strip ''no flows'' = ''no flows''" "parse_markdown_table ''no flows'' = []"
  by (simp_all add: parse_defs)

text \<open>
  C1, as stated: when the model call of one participant of three raises, the run goes on with
  the next participant and two artifacts are written. The source calls the client outside any
  \<^verbatim>\<open>try\<close>: the exception leaves the loop and \<^verbatim>\<open>main\<close>. In this run the call for the second
  participant raises; the third is never asked, one artifact is written and no message flows
  are requested.
\<close>

theorem remote_failure_counterexample:
  "main failing_env ''sop.pdf'' ''out'' world0 =
     (Some RemoteCallError,
      \<lparr>calls = [get_participants_prompt ''doc'', get_bpmn_prompt ''A'' ''doc'',
                get_bpmn_prompt ''B'' ''doc''],
       files = [''out/A_bpmn.csv'' \<mapsto> [headers, [''Task'', ''Pay'', [], [], [], [], []]]],
       printed = [Reading_PDF ''sop.pdf'', Identifying_Participants,
                  Found_Participants [''A'', ''B'', ''C''], Generating_BPMN ''A'',
                  Rows_Written 1 ''out/A_bpmn.csv'', Generating_BPMN ''B'']\<rparr>)"
  by (simp add: main_def failing_env_def world0_def call_gpt_def say_def three_participants
      sample_table_parsed write_csv_def keys_def headers_def out_path_A dict_get_def Let_def)

text \<open>
  C1, amended: for three participants whose model calls all return, when the reply of exactly
  one parses to no record and the two others are accepted, the loop goes past the failing
  participant, writes the artifacts of the two others (two files when their paths differ) and
  returns the retained map of these two replies, in which the failing reply does not occur.
  An exception of the client is not caught and ends the run.
\<close>

theorem one_empty_reply_of_three:
  assumes "client e (length (calls w)) (get_bpmn_prompt p1 sop_text) = Inr r1"
    and "client e (length (calls w) + 1) (get_bpmn_prompt p2 sop_text) = Inr r2"
    and "client e (length (calls w) + 2) (get_bpmn_prompt p3 sop_text) = Inr r3"
  shows
    "(parse_markdown_table (strip r1) = [] \<and> accepted e output_dir p2 (strip r2) \<and>
      accepted e output_dir p3 (strip r3) \<longrightarrow>
        bpmn_loop e sop_text output_dir [p1, p2, p3] [] w =
          (Inr (dict_set [(p2, strip r2)] p3 (strip r3)),
           written sop_text output_dir p3 (strip r3)
             (written sop_text output_dir p2 (strip r2) (skipped sop_text p1 (strip r1) w))) \<and>
        strip r1 \<notin> snd ` set (dict_set [(p2, strip r2)] p3 (strip r3))) \<and>
     (accepted e output_dir p1 (strip r1) \<and> parse_markdown_table (strip r2) = [] \<and>
      accepted e output_dir p3 (strip r3) \<longrightarrow>
        bpmn_loop e sop_text output_dir [p1, p2, p3] [] w =
          (Inr (dict_set [(p1, strip r1)] p3 (strip r3)),
           written sop_text output_dir p3 (strip r3)
             (skipped sop_text p2 (strip r2) (written sop_text output_dir p1 (strip r1) w))) \<and>
        strip r2 \<notin> snd ` set (dict_set [(p1, strip r1)] p3 (strip r3))) \<and>
     (accepted e output_dir p1 (strip r1) \<and> accepted e output_dir p2 (strip r2) \<and>
      parse_markdown_table (strip r3) = [] \<longrightarrow>
        bpmn_loop e sop_text output_dir [p1, p2, p3] [] w =
          (Inr (dict_set [(p1, strip r1)] p2 (strip r2)),
           skipped sop_text p3 (strip r3)
             (written sop_text output_dir p2 (strip r2) (written sop_text output_dir p1 (strip r1) w))) \<and>
        strip r3 \<notin> snd ` set (dict_set [(p1, strip r1)] p2 (strip r2)))"
proof (intro conjI impI; elim conjE)
  assume a: "parse_markdown_table (strip r1) = []" "accepted e output_dir p2 (strip r2)"
    "accepted e output_dir p3 (strip r3)"
  let ?w1 = "skipped sop_text p1 (strip r1) w"
  let ?w2 = "written sop_text output_dir p2 (strip r2) ?w1"
  have c2: "client e (length (calls ?w1)) (get_bpmn_prompt p2 sop_text) = Inr r2"
    using assms(2) by simp
  have c3: "client e (length (calls ?w2)) (get_bpmn_prompt p3 sop_text) = Inr r3"
    using assms(3) by simp
  show "bpmn_loop e sop_text output_dir [p1, p2, p3] [] w =
          (Inr (dict_set [(p2, strip r2)] p3 (strip r3)),
           written sop_text output_dir p3 (strip r3) ?w2)"
    by (simp only: step_skipped [OF assms(1) a(1)] step_written [OF c2 a(2)]
        step_written [OF c3 a(3)] bpmn_loop.simps(1) dict_set.simps(1))
  show "strip r1 \<notin> snd ` set (dict_set [(p2, strip r2)] p3 (strip r3))"
    using a by (rule not_retained)
next
  assume a: "accepted e output_dir p1 (strip r1)" "parse_markdown_table (strip r2) = []"
    "accepted e output_dir p3 (strip r3)"
  let ?w1 = "written sop_text output_dir p1 (strip r1) w"
  let ?w2 = "skipped sop_text p2 (strip r2) ?w1"
  have c2: "client e (length (calls ?w1)) (get_bpmn_prompt p2 sop_text) = Inr r2"
    using assms(2) by simp
  have c3: "client e (length (calls ?w2)) (get_bpmn_prompt p3 sop_text) = Inr r3"
    using assms(3) by simp
  show "bpmn_loop e sop_text output_dir [p1, p2, p3] [] w =
          (Inr (dict_set [(p1, strip r1)] p3 (strip r3)),
           written sop_text output_dir p3 (strip r3) ?w2)"
    by (simp only: step_written [OF assms(1) a(1)] step_skipped [OF c2 a(2)]
        step_written [OF c3 a(3)] bpmn_loop.simps(1) dict_set.simps(1))
  show "strip r2 \<notin> snd ` set (dict_set [(p1, strip r1)] p3 (strip r3))"
    using a(2,1,3) by (rule not_retained)
next
  assume a: "accepted e output_dir p1 (strip r1)" "accepted e output_dir p2 (strip r2)"
    "parse_markdown_table (strip r3) = []"
  let ?w1 = "written sop_text output_dir p1 (strip r1) w"
  let ?w2 = "written sop_text output_dir p2 (strip r2) ?w1"
  have c2: "client e (length (calls ?w1)) (get_bpmn_prompt p2 sop_text) = Inr r2"
    using assms(2) by simp
  have c3: "client e (length (calls ?w2)) (get_bpmn_prompt p3 sop_text) = Inr r3"
    using assms(3) by simp
  show "bpmn_loop e sop_text output_dir [p1, p2, p3] [] w =
          (Inr (dict_set [(p1, strip r1)] p2 (strip r2)),
           skipped sop_text p3 (strip r3) ?w2)"
    by (simp only: step_written [OF assms(1) a(1)] step_written [OF c2 a(2)]
        step_skipped [OF c3 a(3)] bpmn_loop.simps(1) dict_set.simps(1))
  show "strip r3 \<notin> snd ` set (dict_set [(p1, strip r1)] p2 (strip r2))"
    using a(3,1,2) by (rule not_retained)
qed

theorem one_empty_reply_of_three_witness:
  "bpmn_loop unparsed_env ''doc'' ''out'' [''A'', ''B'', ''C''] [] asked =
     (Inr [(''A'', sample_table), (''C'', second_table)],
      \<lparr>calls = [get_participants_prompt ''doc'', get_bpmn_prompt ''A'' ''doc'',
                get_bpmn_prompt ''B'' ''doc'', get_bpmn_prompt ''C'' ''doc''],
       files = [''out/A_bpmn.csv'' \<mapsto> [headers, [''Task'', ''Pay'', [], [], [], [], []]],
                ''out/C_bpmn.csv'' \<mapsto> [headers, [''Task'', ''Ship'', [], [], [], [], []]]],
       printed = [Found_Participants [''A'', ''B'', ''C''], Generating_BPMN ''A'',
                  Rows_Written 1 ''out/A_bpmn.csv'', Generating_BPMN ''B'',
                  Could_Not_Parse_Table ''B'' ''I cannot help with that.'',
                  Generating_BPMN ''C'', Rows_Written 1 ''out/C_bpmn.csv'']\<rparr>) \<and>
   main unparsed_env ''sop.pdf'' ''out'' world0 =
     (None,
      \<lparr>calls = [get_participants_prompt ''doc'', get_bpmn_prompt ''A'' ''doc'',
                get_bpmn_prompt ''B'' ''doc'', get_bpmn_prompt ''C'' ''doc'',
                get_message_flows_prompt [(''A'', sample_table), (''C'', second_table)]],
       files = [''out/A_bpmn.csv'' \<mapsto> [headers, [''Task'', ''Pay'', [], [], [], [], []]],
                ''out/C_bpmn.csv'' \<mapsto> [headers, [''Task'', ''Ship'', [], [], [], [], []]]],
       printed = [Reading_PDF ''sop.pdf'', Identifying_Participants,
                  Found_Participants [''A'', ''B'', ''C''], Generating_BPMN ''A'',
                  Rows_Written 1 ''out/A_bpmn.csv'', Generating_BPMN ''B'',
                  Could_Not_Parse_Table ''B'' ''I cannot help with that.'',
                  Generating_BPMN ''C'', Rows_Written 1 ''out/C_bpmn.csv'',
                  Generating_Message_Flows, Could_Not_Parse_Message_Flows ''no flows'',
                  All_Done]\<rparr>)"
proof -
  have w: "writable unparsed_env path" for path by (simp add: unparsed_env_def)
  have c1: "client unparsed_env (length (calls asked)) (get_bpmn_prompt ''A'' ''doc'') = Inr sample_table"
    and c2: "client unparsed_env (length (calls asked) + 1) (get_bpmn_prompt ''B'' ''doc'') =
               Inr ''I cannot help with that.''"
    and c3: "client unparsed_env (length (calls asked) + 2) (get_bpmn_prompt ''C'' ''doc'') = Inr second_table"
    by (simp_all add: unparsed_env_def asked_def)
  have a1: "accepted unparsed_env ''out'' ''A'' (strip sample_table)"
    using sample_accepted(1) [OF w] by (simp add: sample_table_parsed)
  have a3: "accepted unparsed_env ''out'' ''C'' (strip second_table)"
    using sample_accepted(2) [OF w] by (simp add: second_table_parsed)
  have e2: "parse_markdown_table (strip ''I cannot help with that.'') = []"
    by (simp add: refusal_parsed)
  from one_empty_reply_of_three [OF c1 c2 c3, of "''out''"] a1 e2 a3
  have "bpmn_loop unparsed_env ''doc'' ''out'' [''A'', ''B'', ''C''] [] asked =
          (Inr (dict_set [(''A'', strip sample_table)] ''C'' (strip second_table)),
           written ''doc'' ''out'' ''C'' (strip second_table)
             (skipped ''doc'' ''B'' (strip ''I cannot help with that.'')
               (written ''doc'' ''out'' ''A'' (strip sample_table) asked)))"
    by blast
  then have l: "bpmn_loop unparsed_env ''doc'' ''out'' [''A'', ''B'', ''C''] [] asked =
     (Inr [(''A'', sample_table), (''C'', second_table)],
      \<lparr>calls = [get_participants_prompt ''doc'', get_bpmn_prompt ''A'' ''doc'',
                get_bpmn_prompt ''B'' ''doc'', get_bpmn_prompt ''C'' ''doc''],
       files = [''out/A_bpmn.csv'' \<mapsto> [headers, [''Task'', ''Pay'', [], [], [], [], []]],
                ''out/C_bpmn.csv'' \<mapsto> [headers, [''Task'', ''Ship'', [], [], [], [], []]]],
       printed = [Found_Participants [''A'', ''B'', ''C''], Generating_BPMN ''A'',
                  Rows_Written 1 ''out/A_bpmn.csv'', Generating_BPMN ''B'',
                  Could_Not_Parse_Table ''B'' ''I cannot help with that.'',
                  Generating_BPMN ''C'', Rows_Written 1 ''out/C_bpmn.csv'']\<rparr>)"
    by (simp add: written_def skipped_def asked_def sample_table_parsed second_table_parsed
        refusal_parsed out_path_A out_path_C csv_records_def dict_get_def headers_def
        del: bpmn_loop.simps)
  have m: "main unparsed_env ''sop.pdf'' ''out'' world0 =
     (None,
      \<lparr>calls = [get_participants_prompt ''doc'', get_bpmn_prompt ''A'' ''doc'',
                get_bpmn_prompt ''B'' ''doc'', get_bpmn_prompt ''C'' ''doc'',
                get_message_flows_prompt [(''A'', sample_table), (''C'', second_table)]],
       files = [''out/A_bpmn.csv'' \<mapsto> [headers, [''Task'', ''Pay'', [], [], [], [], []]],
                ''out/C_bpmn.csv'' \<mapsto> [headers, [''Task'', ''Ship'', [], [], [], [], []]]],
       printed = [Reading_PDF ''sop.pdf'', Identifying_Participants,
                  Found_Participants [''A'', ''B'', ''C''], Generating_BPMN ''A'',
                  Rows_Written 1 ''out/A_bpmn.csv'', Generating_BPMN ''B'',
                  Could_Not_Parse_Table ''B'' ''I cannot help with that.'',
                  Generating_BPMN ''C'', Rows_Written 1 ''out/C_bpmn.csv'',
                  Generating_Message_Flows, Could_Not_Parse_Message_Flows ''no flows'',
                  All_Done]\<rparr>)"
    by (simp add: main_def message_flows_def unparsed_env_def world0_def call_gpt_def say_def
        three_participants sample_table_parsed second_table_parsed refusal_parsed write_csv_def
        keys_def headers_def out_path_A out_path_C dict_get_def Let_def)
  from l m show ?thesis by (rule conjI)
qed

section \<open>A label that occurs twice\<close>







end
